theory Spec2Isabelle
  imports Complex_Main "HOL-Library.Sublist"
begin

section \<open>The local keyword index of \<^verbatim>\<open>src/services/vectorDbService.js\<close>\<close>

text \<open>
  The module keeps three module-level variables (\<^verbatim>\<open>storedDocs\<close>, \<^verbatim>\<open>dfMap\<close>,
  \<^verbatim>\<open>avgDocLength\<close>) and exports three operations on them. The embedding passes the
  three variables as one record. JavaScript values handed in by callers are a small
  datatype, so that a call on a value without \<^verbatim>\<open>toLowerCase\<close> is a \<open>TypeError\<close>
  branch of the model. A JavaScript string is written as the list of the bytes of its
  UTF-8 encoding: the module never measures a string, it lower-cases it and cuts it at the
  characters outside \<^verbatim>\<open>[a-z0-9]\<close>. The characters of the class are single bytes in
  UTF-8, and every byte of a non-ASCII character is outside the class, as every one of
  its UTF-16 code units is.
  Numbers are real numbers, so rounding of IEEE doubles is not part of the model.
  A JavaScript division never throws; the model records a division whose divisor is
  zero as the value \<open>DivisionByZero\<close>, so that its absence can be stated and proved.
\<close>

subsection \<open>Values and errors\<close>

datatype jsval = JStr string | JNull | JUndefined | JNum int | JBool bool

datatype error = TypeError | DivisionByZero

subsection \<open>tokenize\<close>

text \<open>
  \<^verbatim>\<open>text.toLowerCase().split(/[^a-z0-9]+/g).filter(Boolean)\<close>
\<close>

definition isTokenChar :: "char \<Rightarrow> bool" where
  \<comment> \<open>the character class \<^verbatim>\<open>[a-z0-9]\<close>\<close>
  "isTokenChar c =
     (let n = (of_char c :: nat) in (97 \<le> n \<and> n \<le> 122) \<or> (48 \<le> n \<and> n \<le> 57))"

definition isSepChar :: "char \<Rightarrow> bool" where
  \<comment> \<open>the negated class \<^verbatim>\<open>[^a-z0-9]\<close>\<close>
  "isSepChar c = (\<not> isTokenChar c)"

definition lowerChar :: "char \<Rightarrow> char" where
  \<comment> \<open>the lower-case form of an ASCII character: A-Z move up by 32\<close>
  "lowerChar c =
     (let n = (of_char c :: nat) in if 65 \<le> n \<and> n \<le> 90 then char_of (n + 32) else c)"

fun toLowerCase :: "string \<Rightarrow> string" where
  \<comment> \<open>\<^verbatim>\<open>String.prototype.toLowerCase\<close>, as far as it can be seen through \<^verbatim>\<open>[a-z0-9]\<close>:
      the two characters beyond ASCII whose lower-case form holds an ASCII letter are
      written out, U+212A KELVIN SIGN (bytes E2 84 AA), which becomes \<^verbatim>\<open>k\<close>, and
      U+0130 (bytes C4 B0), which becomes \<^verbatim>\<open>i\<close> followed by U+0307 (bytes CC 87). Every
      other character beyond ASCII has a lower-case form beyond ASCII and is left as it
      is; by lemma \<open>sepEquivalent_runs\<close> the tokens do not depend on how a stretch of
      separators is written\<close>
  "toLowerCase (a # b # c # cs) =
     (if a = CHR 0xE2 \<and> b = CHR 0x84 \<and> c = CHR 0xAA then CHR ''k'' # toLowerCase cs
      else if a = CHR 0xC4 \<and> b = CHR 0xB0
           then CHR ''i'' # CHR 0xCC # CHR 0x87 # toLowerCase (c # cs)
      else lowerChar a # toLowerCase (b # c # cs))"
| "toLowerCase [a, b] =
     (if a = CHR 0xC4 \<and> b = CHR 0xB0 then [CHR ''i'', CHR 0xCC, CHR 0x87]
      else lowerChar a # toLowerCase [b])"
| "toLowerCase [a] = [lowerChar a]"
| "toLowerCase [] = []"

function splitSep :: "string \<Rightarrow> string list" where
  \<comment> \<open>\<^verbatim>\<open>split(/[^a-z0-9]+/g)\<close>: the pieces between the maximal separator runs; a
      leading or trailing separator run leaves an empty piece, the empty string gives
      one empty piece\<close>
  "splitSep s =
     (if dropWhile isTokenChar s = [] then [takeWhile isTokenChar s]
      else takeWhile isTokenChar s
           # splitSep (dropWhile isSepChar (dropWhile isTokenChar s)))"
  by pat_completeness auto
termination
proof (relation "measure length")
  show "wf (measure length)" by simp
next
  fix s :: string
  assume ne: "dropWhile isTokenChar s \<noteq> []"
  then obtain x xs where r: "dropWhile isTokenChar s = x # xs"
    by (cases "dropWhile isTokenChar s") auto
  have "\<not> isTokenChar (hd (dropWhile isTokenChar s))"
    using ne by (rule hd_dropWhile)
  then have sep: "isSepChar x" by (simp add: r isSepChar_def)
  have "length (dropWhile isSepChar (x # xs)) \<le> length xs"
    using sep by (simp add: length_dropWhile_le)
  moreover have "length (x # xs) \<le> length s"
    using length_dropWhile_le [of isTokenChar s] by (simp add: r)
  ultimately show "(dropWhile isSepChar (dropWhile isTokenChar s), s) \<in> measure length"
    by (simp add: r)
qed

declare splitSep.simps [simp del]

definition tokenizeString :: "string \<Rightarrow> string list" where
  \<comment> \<open>\<^verbatim>\<open>filter(Boolean)\<close> drops the empty pieces\<close>
  "tokenizeString s = filter (\<lambda>p. p \<noteq> []) (splitSep (toLowerCase s))"

fun tokenize :: "jsval \<Rightarrow> error + string list" where
  \<comment> \<open>only a string has the method \<^verbatim>\<open>toLowerCase\<close>; on \<^verbatim>\<open>null\<close>, \<^verbatim>\<open>undefined\<close>, a
      number or a boolean the call throws a TypeError\<close>
  "tokenize (JStr s) = Inr (tokenizeString s)"
| "tokenize _ = Inl TypeError"

text \<open>
  The tokens in the words of the specification: the maximal runs of characters of
  \<^verbatim>\<open>[a-z0-9]\<close>, in order.
\<close>

function maximalRuns :: "string \<Rightarrow> string list" where
  "maximalRuns [] = []"
| "maximalRuns (c # cs) =
     (if isTokenChar c
      then takeWhile isTokenChar (c # cs) # maximalRuns (dropWhile isTokenChar cs)
      else maximalRuns cs)"
  by pat_completeness auto
termination
  by (relation "measure length") (auto simp: length_dropWhile_le less_Suc_eq_le)

inductive runsOf :: "string \<Rightarrow> string list \<Rightarrow> bool" where
  \<comment> \<open>\<open>runsOf s ts\<close>: \<open>s\<close> is a gap, then the first token, then the rest, which does
      not go on with a token character; gaps hold separator characters only\<close>
  noRun: "\<forall>c \<in> set s. isSepChar c \<Longrightarrow> runsOf s []"
| aRun: "\<forall>c \<in> set g. isSepChar c \<Longrightarrow> t \<noteq> [] \<Longrightarrow> \<forall>c \<in> set t. isTokenChar c \<Longrightarrow>
         r = [] \<or> isSepChar (hd r) \<Longrightarrow> runsOf r ts \<Longrightarrow> runsOf (g @ t @ r) (t # ts)"

inductive sepEquivalent :: "string \<Rightarrow> string \<Rightarrow> bool" where
  \<comment> \<open>two strings that differ only in how their non-empty stretches of separator
      characters are written\<close>
  bothEmpty: "sepEquivalent [] []"
| sameChar: "sepEquivalent r1 r2 \<Longrightarrow> sepEquivalent (c # r1) (c # r2)"
| gaps: "g1 \<noteq> [] \<Longrightarrow> g2 \<noteq> [] \<Longrightarrow> \<forall>c \<in> set g1. isSepChar c \<Longrightarrow>
         \<forall>c \<in> set g2. isSepChar c \<Longrightarrow> sepEquivalent r1 r2 \<Longrightarrow>
         sepEquivalent (g1 @ r1) (g2 @ r2)"

subsection \<open>Document records and the module state\<close>

record document =
  pageContent :: jsval
  tokens :: "string list"
  termFreq :: "string \<rightharpoonup> nat"

record index_state =
  storedDocs :: "document list"
  dfMap :: "string \<rightharpoonup> nat"
  avgDocLength :: real

definition initialState :: index_state where
  \<comment> \<open>\<^verbatim>\<open>let storedDocs = []; let dfMap = new Map(); let avgDocLength = 0;\<close>\<close>
  "initialState = \<lparr>storedDocs = [], dfMap = Map.empty, avgDocLength = 0\<rparr>"

definition getOrZero :: "(string \<rightharpoonup> nat) \<Rightarrow> string \<Rightarrow> nat" where
  \<comment> \<open>\<^verbatim>\<open>m.get(key) || 0\<close>: a missing key and a stored 0 both read as 0\<close>
  "getOrZero m key = (case m key of None \<Rightarrow> 0 | Some n \<Rightarrow> n)"

fun countInto :: "(string \<rightharpoonup> nat) \<Rightarrow> string list \<Rightarrow> (string \<rightharpoonup> nat)" where
  \<comment> \<open>\<^verbatim>\<open>for (const t of ts) m.set(t, (m.get(t) || 0) + 1)\<close>\<close>
  "countInto m [] = m"
| "countInto m (t # ts) = countInto (m(t \<mapsto> getOrZero m t + 1)) ts"

fun makeRecord :: "jsval \<Rightarrow> error + document" where
  \<comment> \<open>the body shared by the callback of \<^verbatim>\<open>documents.map\<close> and the loop of
      \<^verbatim>\<open>addDocuments\<close>\<close>
  "makeRecord text =
     (case tokenize text of
        Inl e \<Rightarrow> Inl e
      | Inr toks \<Rightarrow>
          Inr \<lparr>pageContent = text, tokens = toks, termFreq = countInto Map.empty toks\<rparr>)"

subsection \<open>rebuildIndex\<close>

fun uniqueTokens :: "string list \<Rightarrow> string list" where
  \<comment> \<open>\<^verbatim>\<open>new Set(doc.tokens)\<close>, iterated in insertion order\<close>
  "uniqueTokens [] = []"
| "uniqueTokens (t # ts) = t # uniqueTokens (filter (\<lambda>u. u \<noteq> t) ts)"

fun rebuildLoop ::
  "(string \<rightharpoonup> nat) \<Rightarrow> nat \<Rightarrow> document list \<Rightarrow> (string \<rightharpoonup> nat) \<times> nat" where
  "rebuildLoop df totalLength [] = (df, totalLength)"
| "rebuildLoop df totalLength (doc # docs) =
     rebuildLoop (countInto df (uniqueTokens (tokens doc)))
                 (totalLength + length (tokens doc)) docs"

definition rebuildIndex :: "index_state \<Rightarrow> index_state" where
  "rebuildIndex st =
     (case rebuildLoop Map.empty 0 (storedDocs st) of
        (df, totalLength) \<Rightarrow>
          st\<lparr>dfMap := df,
             avgDocLength :=
               (if length (storedDocs st) > 0
                then real totalLength / real (length (storedDocs st)) else 0)\<rparr>)"

subsection \<open>initializeVectorStore and addDocuments\<close>

fun mapRecords :: "jsval list \<Rightarrow> error + document list" where
  \<comment> \<open>\<^verbatim>\<open>documents.map(...)\<close>: an exception in the callback abandons the whole map\<close>
  "mapRecords [] = Inr []"
| "mapRecords (text # rest) =
     (case makeRecord text of
        Inl e \<Rightarrow> Inl e
      | Inr doc \<Rightarrow> (case mapRecords rest of Inl e \<Rightarrow> Inl e | Inr docs \<Rightarrow> Inr (doc # docs)))"

definition initializeVectorStore :: "index_state \<Rightarrow> jsval list \<Rightarrow> bool \<times> index_state" where
  \<comment> \<open>the assignment to \<^verbatim>\<open>storedDocs\<close> happens after the map has returned; the
      \<^verbatim>\<open>catch\<close> block returns false\<close>
  "initializeVectorStore st documents =
     (case mapRecords documents of
        Inl e \<Rightarrow> (False, st)
      | Inr docs \<Rightarrow> (True, rebuildIndex (st\<lparr>storedDocs := docs\<rparr>)))"

fun pushLoop :: "index_state \<Rightarrow> jsval list \<Rightarrow> (error + unit) \<times> index_state" where
  \<comment> \<open>the \<^verbatim>\<open>for\<close> loop of \<^verbatim>\<open>addDocuments\<close>: each record is pushed onto
      \<^verbatim>\<open>storedDocs\<close> as soon as it is built\<close>
  "pushLoop st [] = (Inr (), st)"
| "pushLoop st (text # rest) =
     (case makeRecord text of
        Inl e \<Rightarrow> (Inl e, st)
      | Inr doc \<Rightarrow> pushLoop (st\<lparr>storedDocs := storedDocs st @ [doc]\<rparr>) rest)"

definition addDocuments :: "index_state \<Rightarrow> jsval list \<Rightarrow> (error + unit) \<times> index_state" where
  \<comment> \<open>no \<^verbatim>\<open>try\<close>: an exception in the loop leaves the function before
      \<^verbatim>\<open>rebuildIndex()\<close> and rejects the returned promise\<close>
  "addDocuments st documents =
     (case pushLoop st documents of
        (Inl e, st') \<Rightarrow> (Inl e, st')
      | (Inr u, st') \<Rightarrow> (Inr (), rebuildIndex st'))"

subsection \<open>searchDocuments\<close>

definition jsDivide :: "real \<Rightarrow> real \<Rightarrow> error + real" where
  \<comment> \<open>the operator \<^verbatim>\<open>/\<close>, with a zero divisor made visible\<close>
  "jsDivide x y = (if y = 0 then Inl DivisionByZero else Inr (x / y))"

definition bm25_k1 :: real where
  "bm25_k1 = 1.5"

definition bm25_b :: real where
  "bm25_b = 0.75"

definition idf :: "index_state \<Rightarrow> string \<Rightarrow> error + real" where
  \<comment> \<open>\<^verbatim>\<open>Math.log(1 + (N - df + 0.5) / (df + 0.5))\<close> with \<^verbatim>\<open>N = storedDocs.length\<close>\<close>
  "idf st t =
     (let N = real (length (storedDocs st)); df = real (getOrZero (dfMap st) t) in
      (case jsDivide (N - df + 0.5) (df + 0.5) of
         Inl e \<Rightarrow> Inl e
       | Inr q \<Rightarrow> Inr (ln (1 + q))))"

definition orOne :: "real \<Rightarrow> real" where
  \<comment> \<open>\<^verbatim>\<open>x || 1\<close> on a number\<close>
  "orOne x = (if x = 0 then 1 else x)"

definition scoreStep :: "index_state \<Rightarrow> document \<Rightarrow> real \<Rightarrow> real \<Rightarrow> string \<Rightarrow> error + real" where
  \<comment> \<open>one pass through the body of \<^verbatim>\<open>for (const qt of queryTokens)\<close>\<close>
  "scoreStep st doc dl score qt =
     (let tf = real (getOrZero (termFreq doc) qt) in
      if tf = 0 then Inr score
      else
        (case jsDivide (bm25_b * dl) (orOne (avgDocLength st)) of
           Inl e \<Rightarrow> Inl e
         | Inr r \<Rightarrow>
             (let denom = tf + bm25_k1 * (1 - bm25_b + r) in
              (case idf st qt of
                 Inl e \<Rightarrow> Inl e
               | Inr w \<Rightarrow>
                   (case jsDivide (tf * (bm25_k1 + 1)) denom of
                      Inl e \<Rightarrow> Inl e
                    | Inr q \<Rightarrow> Inr (score + w * q))))))"

fun scoreLoop ::
  "index_state \<Rightarrow> document \<Rightarrow> real \<Rightarrow> real \<Rightarrow> string list \<Rightarrow> error + real" where
  "scoreLoop st doc dl score [] = Inr score"
| "scoreLoop st doc dl score (qt # qts) =
     (case scoreStep st doc dl score qt of
        Inl e \<Rightarrow> Inl e
      | Inr score' \<Rightarrow> scoreLoop st doc dl score' qts)"

definition docScore :: "index_state \<Rightarrow> string list \<Rightarrow> document \<Rightarrow> error + real" where
  \<comment> \<open>the callback of \<^verbatim>\<open>storedDocs.map\<close>: \<^verbatim>\<open>dl = doc.tokens.length || 1\<close>,
      \<^verbatim>\<open>score = 0\<close>, then the loop\<close>
  "docScore st queryTokens doc =
     scoreLoop st doc (orOne (real (length (tokens doc)))) 0 queryTokens"

fun scoreAll ::
  "index_state \<Rightarrow> string list \<Rightarrow> document list \<Rightarrow> error + (document \<times> real) list" where
  "scoreAll st queryTokens [] = Inr []"
| "scoreAll st queryTokens (doc # docs) =
     (case docScore st queryTokens doc of
        Inl e \<Rightarrow> Inl e
      | Inr score \<Rightarrow>
          (case scoreAll st queryTokens docs of
             Inl e \<Rightarrow> Inl e
           | Inr scored \<Rightarrow> Inr ((doc, score) # scored)))"

definition sortByScoreDesc :: "(document \<times> real) list \<Rightarrow> (document \<times> real) list" where
  \<comment> \<open>\<^verbatim>\<open>scored.sort((a, b) => b.score - a.score)\<close>; \<^verbatim>\<open>Array.prototype.sort\<close> is
      stable, so this is the stable sort on the negated score\<close>
  "sortByScoreDesc scored = sort_key (\<lambda>s. - snd s) scored"

definition sliceTo :: "int \<Rightarrow> 'a list \<Rightarrow> 'a list" where
  \<comment> \<open>\<^verbatim>\<open>slice(0, k)\<close> for an integer \<^verbatim>\<open>k\<close>: a negative end counts from the end of the
      array\<close>
  "sliceTo k xs =
     (let len = int (length xs);
          fin = (if k < 0 then max (len + k) 0 else min k len)
      in take (nat fin) xs)"

definition searchDocuments ::
  "index_state \<Rightarrow> jsval \<Rightarrow> int \<Rightarrow> (error + (jsval \<times> real) list) \<times> index_state" where
  \<comment> \<open>a result entry \<^verbatim>\<open>{ pageContent, score }\<close> is a pair; the second component of the
      value is the module state after the call\<close>
  "searchDocuments st query k =
     (if length (storedDocs st) = 0 then (Inr [], st)
      else
        (case tokenize query of
           Inl e \<Rightarrow> (Inl e, st)
         | Inr queryTokens \<Rightarrow>
             (if length queryTokens = 0 then (Inr [], st)
              else
                (case scoreAll st queryTokens (storedDocs st) of
                   Inl e \<Rightarrow> (Inl e, st)
                 | Inr scored \<Rightarrow>
                     (Inr (map (\<lambda>s. (pageContent (fst s), snd s))
                             (sliceTo k (filter (\<lambda>s. snd s > 0) (sortByScoreDesc scored)))),
                      st)))))"

subsection \<open>The states the module can be in\<close>

inductive reachable :: "index_state \<Rightarrow> bool" where
  atStart: "reachable initialState"
| afterInitialize: "reachable st \<Longrightarrow> reachable (snd (initializeVectorStore st documents))"
| afterAdd: "reachable st \<Longrightarrow> reachable (snd (addDocuments st documents))"
| afterSearch: "reachable st \<Longrightarrow> reachable (snd (searchDocuments st query k))"

subsection \<open>The vocabulary of the specification\<close>

definition isString :: "jsval \<Rightarrow> bool" where
  "isString v = (case v of JStr s \<Rightarrow> True | _ \<Rightarrow> False)"

definition docCount :: "document list \<Rightarrow> string \<Rightarrow> nat" where
  \<comment> \<open>the number of records whose token set contains the token\<close>
  "docCount docs t = length (filter (\<lambda>d. t \<in> set (tokens d)) docs)"

definition totalTokens :: "document list \<Rightarrow> nat" where
  "totalTokens docs = sum_list (map (\<lambda>d. length (tokens d)) docs)"

definition meanLength :: "document list \<Rightarrow> real" where
  \<comment> \<open>the mean of \<^verbatim>\<open>tokens.length\<close> over the records, 0 for no records\<close>
  "meanLength docs =
     (if docs = [] then 0 else real (totalTokens docs) / real (length docs))"

definition statsConsistent :: "index_state \<Rightarrow> bool" where
  \<comment> \<open>the Index Statistics are the ones of the stored records: a token is a key of
      \<open>dfMap\<close> exactly when some record holds it, and is mapped to the number of
      records holding it\<close>
  "statsConsistent st =
     ((\<forall>t. dfMap st t =
            (if docCount (storedDocs st) t = 0 then None
             else Some (docCount (storedDocs st) t)))
      \<and> avgDocLength st = meanLength (storedDocs st))"

definition recordInvariant :: "document \<Rightarrow> bool" where
  \<comment> \<open>the invariant of a Document Record: \<open>termFreq\<close> is the count of \<open>tokens\<close>\<close>
  "recordInvariant d = (termFreq d = countInto Map.empty (tokens d))"

definition idfValue :: "index_state \<Rightarrow> string \<Rightarrow> real" where
  \<comment> \<open>the formula of the specification for idf\<close>
  "idfValue st t =
     ln (1 + (real (length (storedDocs st)) - real (getOrZero (dfMap st) t) + 0.5)
            / (real (getOrZero (dfMap st) t) + 0.5))"

definition termWeight :: "index_state \<Rightarrow> document \<Rightarrow> real \<Rightarrow> string \<Rightarrow> real" where
  \<comment> \<open>what one query token adds to the score of a record whose length is read as
      \<open>dl\<close>\<close>
  "termWeight st d dl t =
     (if getOrZero (termFreq d) t = 0 then 0
      else idfValue st t
           * (real (getOrZero (termFreq d) t) * (bm25_k1 + 1)
              / (real (getOrZero (termFreq d) t)
                 + bm25_k1 * (1 - bm25_b + bm25_b * dl / orOne (avgDocLength st)))))"

subsection \<open>Auxiliary notions for the proofs\<close>

definition scoreValue :: "index_state \<Rightarrow> string list \<Rightarrow> document \<Rightarrow> real" where
  \<comment> \<open>the score of a record as a number: the sum of the weights of the query tokens,
      one summand for each position of the query\<close>
  "scoreValue st queryTokens d =
     sum_list (map (termWeight st d (orOne (real (length (tokens d))))) queryTokens)"

definition rankEntries :: "int \<Rightarrow> (document \<times> real) list \<Rightarrow> (jsval \<times> real) list" where
  \<comment> \<open>the tail of \<^verbatim>\<open>searchDocuments\<close>: sort, filter, slice, map\<close>
  "rankEntries k scored =
     map (\<lambda>s. (pageContent (fst s), snd s))
       (sliceTo k (filter (\<lambda>s. snd s > 0) (sortByScoreDesc scored)))"

definition stateInvariant :: "index_state \<Rightarrow> bool" where
  \<comment> \<open>what every state of the module satisfies, also after a failed call\<close>
  "stateInvariant st = ((\<forall>d \<in> set (storedDocs st). recordInvariant d) \<and> 0 \<le> avgDocLength st)"

subsection \<open>Concrete states used as examples\<close>

definition appleRecord :: document where
  \<comment> \<open>the record built from the text \<^verbatim>\<open>"apple"\<close>\<close>
  "appleRecord = \<lparr>pageContent = JStr ''apple'', tokens = [''apple''],
                   termFreq = countInto Map.empty [''apple'']\<rparr>"

definition appleState :: index_state where
  \<comment> \<open>the module after \<^verbatim>\<open>initializeVectorStore(["apple"])\<close>\<close>
  "appleState = snd (initializeVectorStore initialState [JStr ''apple''])"

definition failedAddState :: index_state where
  \<comment> \<open>the module after \<^verbatim>\<open>addDocuments(["apple", null])\<close> on a fresh module\<close>
  "failedAddState = snd (addDocuments initialState [JStr ''apple'', JNull])"

definition punctuationState :: index_state where
  \<comment> \<open>the module after \<^verbatim>\<open>initializeVectorStore(["?!"])\<close>\<close>
  "punctuationState = snd (initializeVectorStore initialState [JStr ''?!''])"

definition appleBanana :: document where
  \<comment> \<open>the record built from the text \<^verbatim>\<open>"apple banana"\<close>\<close>
  "appleBanana = \<lparr>pageContent = JStr ''apple banana'', tokens = [''apple'', ''banana''],
                   termFreq = countInto Map.empty [''apple'', ''banana'']\<rparr>"

definition bananaCherry :: document where
  \<comment> \<open>the record built from the text \<^verbatim>\<open>"banana cherry"\<close>\<close>
  "bananaCherry = \<lparr>pageContent = JStr ''banana cherry'', tokens = [''banana'', ''cherry''],
                    termFreq = countInto Map.empty [''banana'', ''cherry'']\<rparr>"

definition appleCherry :: document where
  \<comment> \<open>the record built from the text \<^verbatim>\<open>"apple cherry"\<close>\<close>
  "appleCherry = \<lparr>pageContent = JStr ''apple cherry'', tokens = [''apple'', ''cherry''],
                   termFreq = countInto Map.empty [''apple'', ''cherry'']\<rparr>"

definition pairState :: index_state where
  \<comment> \<open>the module after
      \<^verbatim>\<open>initializeVectorStore(["apple banana", "banana cherry"])\<close>\<close>
  "pairState =
     snd (initializeVectorStore initialState [JStr ''apple banana'', JStr ''banana cherry''])"

definition fruitState :: index_state where
  \<comment> \<open>the module after
      \<^verbatim>\<open>initializeVectorStore(["apple banana", "banana cherry", "apple cherry"])\<close>\<close>
  "fruitState =
     snd (initializeVectorStore initialState
            [JStr ''apple banana'', JStr ''banana cherry'', JStr ''apple cherry''])"


section \<open>Supporting lemmas\<close>

subsection \<open>Facts about the tokenizer\<close>

lemma maximalRuns_skip: "maximalRuns (dropWhile isSepChar r) = maximalRuns r"
  by (induction r) (auto simp: isSepChar_def)

lemma maximalRuns_split:
  "maximalRuns s =
     (if takeWhile isTokenChar s = [] then [] else [takeWhile isTokenChar s])
     @ maximalRuns (dropWhile isTokenChar s)"
  by (cases s) auto

lemma maximalRuns_all_token:
  "dropWhile isTokenChar s = [] \<Longrightarrow> maximalRuns s = (if s = [] then [] else [s])"
proof (cases s)
  case Nil
  then show ?thesis by simp
next
  case (Cons c cs)
  assume d: "dropWhile isTokenChar s = []"
  then have all: "\<forall>x \<in> set s. isTokenChar x"
    by simp
  then have "takeWhile isTokenChar s = s" by simp
  moreover have "maximalRuns (dropWhile isTokenChar s) = []" by (simp only: d maximalRuns.simps)
  ultimately show ?thesis using maximalRuns_split [of s] Cons by simp
qed

lemma splitSep_nonempty_pieces: "filter (\<lambda>p. p \<noteq> []) (splitSep s) = maximalRuns s"
proof (induction s rule: splitSep.induct)
  case (1 s)
  show ?case
  proof (cases "dropWhile isTokenChar s = []")
    case True
    then have all: "\<forall>x \<in> set s. isTokenChar x"
      by simp
    then have tk: "takeWhile isTokenChar s = s" by simp
    have "splitSep s = [s]" by (subst splitSep.simps) (simp only: True tk refl if_True)
    then show ?thesis using maximalRuns_all_token [OF True] by simp
  next
    case False
    have sp: "splitSep s = takeWhile isTokenChar s
                # splitSep (dropWhile isSepChar (dropWhile isTokenChar s))"
      by (subst splitSep.simps) (simp only: False if_False)
    have ih: "filter (\<lambda>p. p \<noteq> []) (splitSep (dropWhile isSepChar (dropWhile isTokenChar s)))
                = maximalRuns (dropWhile isTokenChar s)"
      using "1.IH" [OF False] by (simp add: maximalRuns_skip)
    show ?thesis
      by (subst maximalRuns_split) (simp add: sp ih)
  qed
qed

lemma runsOf_sep_Cons:
  assumes "isSepChar c" and "runsOf cs ts"
  shows "runsOf (c # cs) ts"
  using assms(2)
proof (cases rule: runsOf.cases)
  case noRun
  then show ?thesis using assms(1) by (simp add: runsOf.noRun)
next
  case (aRun g t r ts')
  have "runsOf ((c # g) @ t @ r) (t # ts')"
    using aRun assms(1) by (intro runsOf.aRun) auto
  then show ?thesis using aRun by simp
qed

lemma runsOf_maximalRuns: "runsOf s (maximalRuns s)"
proof (induction s rule: maximalRuns.induct)
  case 1
  show ?case by (simp add: runsOf.noRun)
next
  case (2 c cs)
  show ?case
  proof (cases "isTokenChar c")
    case True
    let ?t = "takeWhile isTokenChar (c # cs)"
    let ?r = "dropWhile isTokenChar cs"
    have r: "?r = [] \<or> isSepChar (hd ?r)"
      using hd_dropWhile [of isTokenChar cs] by (auto simp: isSepChar_def)
    have "runsOf ([] @ ?t @ ?r) (?t # maximalRuns ?r)"
    proof (rule runsOf.aRun)
      show "\<forall>x \<in> set []. isSepChar x" by simp
      show "?t \<noteq> []" using True by simp
      show "\<forall>x \<in> set ?t. isTokenChar x" by (auto dest: set_takeWhileD)
      show "?r = [] \<or> isSepChar (hd ?r)" by (rule r)
      show "runsOf ?r (maximalRuns ?r)" using "2.IH"(1) [OF True] .
    qed
    moreover have "[] @ ?t @ ?r = c # cs" using True by simp
    ultimately show ?thesis using True by simp
  next
    case False
    then have "runsOf (c # cs) (maximalRuns cs)"
      using "2.IH"(2) by (intro runsOf_sep_Cons) (auto simp: isSepChar_def)
    then show ?thesis using False by simp
  qed
qed

lemma maximalRuns_gap: "\<forall>c \<in> set g. isSepChar c \<Longrightarrow> maximalRuns (g @ s) = maximalRuns s"
  by (induction g) (auto simp: isSepChar_def)

lemma maximalRuns_run:
  assumes "t \<noteq> []" and "\<forall>c \<in> set t. isTokenChar c" and "r = [] \<or> isSepChar (hd r)"
  shows "maximalRuns (t @ r) = t # maximalRuns r"
proof -
  have tk: "takeWhile isTokenChar (t @ r) = t"
    using assms(2,3) by (cases r) (auto simp: isSepChar_def)
  have dr: "dropWhile isTokenChar (t @ r) = r"
    using assms(2,3) by (cases r) (auto simp: isSepChar_def)
  have "maximalRuns (t @ r) = [t] @ maximalRuns r"
    using assms(1) by (subst maximalRuns_split) (simp only: tk dr if_False)
  then show ?thesis by simp
qed

lemma runsOf_unique: "runsOf s ts \<Longrightarrow> ts = maximalRuns s"
proof (induction rule: runsOf.induct)
  case (noRun s)
  then show ?case using maximalRuns_gap [of s "[]"] by simp
next
  case (aRun g t r ts)
  then show ?case by (simp add: maximalRuns_gap maximalRuns_run)
qed

lemma sepEquivalent_runs:
  "sepEquivalent s1 s2 \<Longrightarrow>
   maximalRuns s1 = maximalRuns s2
   \<and> takeWhile isTokenChar s1 = takeWhile isTokenChar s2
   \<and> maximalRuns (dropWhile isTokenChar s1) = maximalRuns (dropWhile isTokenChar s2)"
proof (induction rule: sepEquivalent.induct)
  case bothEmpty
  show ?case by simp
next
  case (sameChar r1 r2 c)
  then show ?case by (cases "isTokenChar c") simp_all
next
  case (gaps g1 g2 r1 r2)
  obtain x xs where g1: "g1 = x # xs" using gaps.hyps(1) by (cases g1) auto
  obtain y ys where g2: "g2 = y # ys" using gaps.hyps(2) by (cases g2) auto
  have x: "\<not> isTokenChar x" using gaps.hyps(3) by (simp add: g1 isSepChar_def)
  have y: "\<not> isTokenChar y" using gaps.hyps(4) by (simp add: g2 isSepChar_def)
  have m1: "maximalRuns (g1 @ r1) = maximalRuns r1"
    using gaps.hyps(3) by (rule maximalRuns_gap)
  have m2: "maximalRuns (g2 @ r2) = maximalRuns r2"
    using gaps.hyps(4) by (rule maximalRuns_gap)
  have t1: "takeWhile isTokenChar (g1 @ r1) = []"
    and d1: "dropWhile isTokenChar (g1 @ r1) = g1 @ r1"
    using x by (simp_all add: g1)
  have t2: "takeWhile isTokenChar (g2 @ r2) = []"
    and d2: "dropWhile isTokenChar (g2 @ r2) = g2 @ r2"
    using y by (simp_all add: g2)
  show ?case using gaps.IH by (simp only: t1 t2 d1 d2 m1 m2)
qed

lemma non_ascii_is_separator: "(128::nat) \<le> of_char c \<Longrightarrow> isSepChar c"
  by (simp add: isSepChar_def isTokenChar_def Let_def)

lemma tokenizeString_runs: "tokenizeString s = maximalRuns (toLowerCase s)"
  by (simp add: tokenizeString_def splitSep_nonempty_pieces)

subsection \<open>Facts about counting and \<^verbatim>\<open>rebuildIndex\<close>\<close>

lemma getOrZero_upd [simp]:
  "getOrZero (m(k \<mapsto> v)) t = (if t = k then v else getOrZero m t)"
  by (simp add: getOrZero_def)

lemma getOrZero_empty [simp]: "getOrZero Map.empty t = 0"
  by (simp add: getOrZero_def)

lemma getOrZero_countInto:
  "getOrZero (countInto m ts) t = getOrZero m t + count_list ts t"
  by (induction ts arbitrary: m) auto

lemma countInto_lookup:
  "countInto m ts t =
     (if t \<in> set ts then Some (getOrZero m t + count_list ts t) else m t)"
proof (induction ts arbitrary: m)
  case Nil
  show ?case by simp
next
  case (Cons u us)
  show ?case by (simp add: Cons.IH)
qed

lemma set_uniqueTokens [simp]: "set (uniqueTokens ts) = set ts"
  by (induction ts rule: uniqueTokens.induct) auto

lemma distinct_uniqueTokens [simp]: "distinct (uniqueTokens ts)"
  by (induction ts rule: uniqueTokens.induct) auto

lemma count_uniqueTokens:
  "count_list (uniqueTokens ts) t = (if t \<in> set ts then 1 else 0)"
  by (induction ts rule: uniqueTokens.induct) auto

lemma rebuildLoop_total:
  "snd (rebuildLoop df n docs) = n + totalTokens docs"
  by (induction docs arbitrary: df n) (auto simp: totalTokens_def)

lemma rebuildLoop_df:
  "getOrZero (fst (rebuildLoop df n docs)) t = getOrZero df t + docCount docs t"
  by (induction docs arbitrary: df n)
     (auto simp: docCount_def getOrZero_countInto count_uniqueTokens)

lemma rebuildLoop_lookup:
  "fst (rebuildLoop df n docs) t =
     (if docCount docs t = 0 then df t else Some (getOrZero df t + docCount docs t))"
proof (induction docs arbitrary: df n)
  case Nil
  show ?case by (simp add: docCount_def)
next
  case (Cons d ds)
  let ?df = "countInto df (uniqueTokens (tokens d))"
  have look: "?df t = (if t \<in> set (tokens d) then Some (getOrZero df t + 1) else df t)"
    by (simp add: countInto_lookup [of df "uniqueTokens (tokens d)" t] count_uniqueTokens)
  have get: "getOrZero ?df t = getOrZero df t + (if t \<in> set (tokens d) then 1 else 0)"
    by (simp add: getOrZero_countInto count_uniqueTokens)
  have step: "fst (rebuildLoop df n (d # ds)) t =
      (if docCount ds t = 0 then ?df t else Some (getOrZero ?df t + docCount ds t))"
    by (simp add: Cons.IH)
  have cnt: "docCount (d # ds) t = (if t \<in> set (tokens d) then 1 else 0) + docCount ds t"
    by (simp add: docCount_def)
  show ?case
    unfolding step look get cnt by simp
qed

lemma storedDocs_rebuildIndex [simp]: "storedDocs (rebuildIndex st) = storedDocs st"
  by (simp add: rebuildIndex_def split: prod.splits)

lemma dfMap_rebuildIndex: "dfMap (rebuildIndex st) = fst (rebuildLoop Map.empty 0 (storedDocs st))"
  by (simp add: rebuildIndex_def split: prod.splits)

lemma avgDocLength_rebuildIndex: "avgDocLength (rebuildIndex st) = meanLength (storedDocs st)"
  using rebuildLoop_total [of Map.empty 0 "storedDocs st"]
  by (auto simp add: rebuildIndex_def meanLength_def split: prod.splits)

lemma statsConsistent_rebuildIndex: "statsConsistent (rebuildIndex st)"
  by (simp add: statsConsistent_def dfMap_rebuildIndex rebuildLoop_lookup avgDocLength_rebuildIndex)

subsection \<open>Facts about the two mutations\<close>

lemma makeRecord_string:
  "makeRecord (JStr s) =
     Inr \<lparr>pageContent = JStr s, tokens = tokenizeString s,
          termFreq = countInto Map.empty (tokenizeString s)\<rparr>"
  by simp

lemma makeRecord_not_string: "\<not> isString v \<Longrightarrow> makeRecord v = Inl TypeError"
  by (cases v) (simp_all add: isString_def)

lemma makeRecord_Inr:
  "makeRecord v = Inr d \<Longrightarrow> isString v \<and> pageContent d = v \<and> recordInvariant d"
  by (cases v) (auto simp: isString_def recordInvariant_def)

declare makeRecord.simps [simp del]

lemma mapRecords_fail:
  "\<exists>v \<in> set documents. \<not> isString v \<Longrightarrow> mapRecords documents = Inl TypeError"
proof (induction documents)
  case Nil
  then show ?case by simp
next
  case (Cons v vs)
  show ?case
  proof (cases "isString v")
    case False
    then show ?thesis by (simp add: makeRecord_not_string)
  next
    case True
    then obtain s where v: "v = JStr s" by (cases v) (auto simp: isString_def)
    have "\<exists>u \<in> set vs. \<not> isString u" using Cons.prems True by auto
    then have "mapRecords vs = Inl TypeError" by (rule Cons.IH)
    then show ?thesis by (simp add: v makeRecord_string)
  qed
qed

lemma mapRecords_ok:
  "\<forall>v \<in> set documents. isString v \<Longrightarrow>
   \<exists>docs. mapRecords documents = Inr docs \<and> map pageContent docs = documents
          \<and> (\<forall>d \<in> set docs. recordInvariant d)"
proof (induction documents)
  case Nil
  then show ?case by simp
next
  case (Cons v vs)
  then obtain s where v: "v = JStr s" by (cases v) (auto simp: isString_def)
  from Cons obtain docs where ds: "mapRecords vs = Inr docs" "map pageContent docs = vs"
    "\<forall>d \<in> set docs. recordInvariant d" by auto
  have "recordInvariant \<lparr>pageContent = JStr s, tokens = tokenizeString s,
          termFreq = countInto Map.empty (tokenizeString s)\<rparr>"
    by (simp add: recordInvariant_def)
  then show ?case by (simp add: v makeRecord_string ds)
qed

lemma mapRecords_Inr:
  "mapRecords documents = Inr docs \<Longrightarrow>
     map pageContent docs = documents \<and> (\<forall>d \<in> set docs. recordInvariant d)
     \<and> (\<forall>v \<in> set documents. isString v)"
proof (induction documents arbitrary: docs)
  case Nil
  then show ?case by simp
next
  case (Cons v vs)
  then show ?case
    by (auto split: sum.splits dest: makeRecord_Inr)
qed

lemma initialize_failure:
  "\<exists>v \<in> set documents. \<not> isString v \<Longrightarrow> initializeVectorStore st documents = (False, st)"
  by (simp add: initializeVectorStore_def mapRecords_fail)

lemma initialize_success:
  assumes "\<forall>v \<in> set documents. isString v"
  shows "fst (initializeVectorStore st documents) = True"
    and "map pageContent (storedDocs (snd (initializeVectorStore st documents))) = documents"
    and "statsConsistent (snd (initializeVectorStore st documents))"
    and "\<forall>d \<in> set (storedDocs (snd (initializeVectorStore st documents))). recordInvariant d"
  using mapRecords_ok [OF assms]
  by (auto simp: initializeVectorStore_def statsConsistent_rebuildIndex)

lemma pushLoop_stats:
  "dfMap (snd (pushLoop st documents)) = dfMap st
   \<and> avgDocLength (snd (pushLoop st documents)) = avgDocLength st"
  by (induction documents arbitrary: st) (auto split: sum.splits)

lemma pushLoop_docs:
  "\<exists>docs. mapRecords (takeWhile isString documents) = Inr docs
     \<and> storedDocs (snd (pushLoop st documents)) = storedDocs st @ docs"
proof (induction documents arbitrary: st)
  case Nil
  show ?case by simp
next
  case (Cons v vs)
  show ?case
  proof (cases "isString v")
    case False
    then show ?thesis by (simp add: makeRecord_not_string)
  next
    case True
    then obtain s where v: "v = JStr s" by (cases v) (auto simp: isString_def)
    let ?d = "\<lparr>pageContent = JStr s, tokens = tokenizeString s,
          termFreq = countInto Map.empty (tokenizeString s)\<rparr>"
    obtain docs where ds: "mapRecords (takeWhile isString vs) = Inr docs"
      "storedDocs (snd (pushLoop (st\<lparr>storedDocs := storedDocs st @ [?d]\<rparr>) vs))
         = storedDocs (st\<lparr>storedDocs := storedDocs st @ [?d]\<rparr>) @ docs"
      using Cons [of "st\<lparr>storedDocs := storedDocs st @ [?d]\<rparr>"] by blast
    show ?thesis using True ds by (simp add: v makeRecord_string)
  qed
qed

lemma pushLoop_result:
  "fst (pushLoop st documents)
     = (if \<forall>v \<in> set documents. isString v then Inr () else Inl TypeError)"
proof (induction documents arbitrary: st)
  case Nil
  show ?case by simp
next
  case (Cons v vs)
  show ?case
  proof (cases "isString v")
    case False
    then show ?thesis by (simp add: makeRecord_not_string)
  next
    case True
    then obtain s where v: "v = JStr s" by (cases v) (auto simp: isString_def)
    show ?thesis using True by (simp add: v makeRecord_string Cons.IH)
  qed
qed

lemma addDocuments_failure:
  assumes "\<exists>v \<in> set documents. \<not> isString v"
  shows "addDocuments st documents = (Inl TypeError, snd (pushLoop st documents))"
proof -
  have "fst (pushLoop st documents) = Inl TypeError"
    using assms by (simp add: pushLoop_result)
  then show ?thesis
    by (cases "pushLoop st documents") (simp add: addDocuments_def)
qed

lemma addDocuments_success:
  assumes "\<forall>v \<in> set documents. isString v"
  shows "addDocuments st documents = (Inr (), rebuildIndex (snd (pushLoop st documents)))"
proof -
  have "fst (pushLoop st documents) = Inr ()"
    using assms by (simp add: pushLoop_result)
  then show ?thesis
    by (cases "pushLoop st documents") (simp add: addDocuments_def)
qed

lemma meanLength_nonneg: "0 \<le> meanLength docs"
  by (simp add: meanLength_def)

lemma stateInvariant_rebuildIndex:
  "\<forall>d \<in> set (storedDocs st). recordInvariant d \<Longrightarrow> stateInvariant (rebuildIndex st)"
  by (simp add: stateInvariant_def avgDocLength_rebuildIndex meanLength_nonneg)

lemma stateInvariant_pushLoop:
  assumes "stateInvariant st"
  shows "stateInvariant (snd (pushLoop st documents))"
proof -
  obtain docs where ds: "mapRecords (takeWhile isString documents) = Inr docs"
     "storedDocs (snd (pushLoop st documents)) = storedDocs st @ docs"
    using pushLoop_docs by blast
  have "\<forall>d \<in> set docs. recordInvariant d" using mapRecords_Inr [OF ds(1)] by simp
  then show ?thesis using assms ds(2) pushLoop_stats [of st documents]
    by (auto simp: stateInvariant_def)
qed

lemma stateInvariant_initialize:
  assumes "stateInvariant st"
  shows "stateInvariant (snd (initializeVectorStore st documents))"
proof (cases "mapRecords documents")
  case (Inl e)
  then show ?thesis using assms by (simp add: initializeVectorStore_def)
next
  case (Inr docs)
  then have "\<forall>d \<in> set docs. recordInvariant d" using mapRecords_Inr by blast
  then show ?thesis using Inr
    by (simp add: initializeVectorStore_def stateInvariant_rebuildIndex)
qed

lemma stateInvariant_addDocuments:
  assumes "stateInvariant st"
  shows "stateInvariant (snd (addDocuments st documents))"
proof (cases "\<forall>v \<in> set documents. isString v")
  case True
  have "stateInvariant (snd (pushLoop st documents))"
    using assms by (rule stateInvariant_pushLoop)
  then have "stateInvariant (rebuildIndex (snd (pushLoop st documents)))"
    by (intro stateInvariant_rebuildIndex) (simp add: stateInvariant_def)
  then show ?thesis using addDocuments_success [OF True] by simp
next
  case False
  then have "\<exists>v \<in> set documents. \<not> isString v" by simp
  then show ?thesis
    using addDocuments_failure [of documents st] stateInvariant_pushLoop [OF assms] by simp
qed

lemma snd_searchDocuments: "snd (searchDocuments st query k) = st"
  by (simp add: searchDocuments_def split: sum.splits)

lemma reachable_invariant: "reachable st \<Longrightarrow> stateInvariant st"
proof (induction rule: reachable.induct)
  case atStart
  show ?case by (simp add: stateInvariant_def initialState_def)
next
  case (afterInitialize st documents)
  then show ?case by (simp add: stateInvariant_initialize)
next
  case (afterAdd st documents)
  then show ?case by (simp add: stateInvariant_addDocuments)
next
  case (afterSearch st query k)
  then show ?case by (simp add: snd_searchDocuments)
qed

lemma initialize_keeps_consistent:
  "statsConsistent st \<Longrightarrow> statsConsistent (snd (initializeVectorStore st documents))"
  by (cases "mapRecords documents")
     (simp_all add: initializeVectorStore_def statsConsistent_rebuildIndex)

lemma addDocuments_success_consistent:
  assumes "\<forall>v \<in> set documents. isString v"
  shows "statsConsistent (snd (addDocuments st documents))"
  by (simp add: addDocuments_success [OF assms] statsConsistent_rebuildIndex)

lemma addDocuments_success_appends:
  assumes "\<forall>v \<in> set documents. isString v"
  shows "\<exists>docs. mapRecords documents = Inr docs
           \<and> storedDocs (snd (addDocuments st documents)) = storedDocs st @ docs"
proof -
  have all: "takeWhile isString documents = documents"
    using assms by simp
  obtain docs where "mapRecords (takeWhile isString documents) = Inr docs"
    and "storedDocs (snd (pushLoop st documents)) = storedDocs st @ docs"
    using pushLoop_docs by blast
  then have "mapRecords documents = Inr docs
      \<and> storedDocs (snd (addDocuments st documents)) = storedDocs st @ docs"
    by (simp only: all addDocuments_success [OF assms] snd_conv storedDocs_rebuildIndex)
  then show ?thesis by blast
qed

lemma initialState_consistent: "statsConsistent initialState"
  by (simp add: statsConsistent_def initialState_def docCount_def meanLength_def)

subsection \<open>Facts about scoring\<close>

lemma idf_value: "idf st t = Inr (idfValue st t)"
proof -
  have "real (getOrZero (dfMap st) t) + 0.5 \<noteq> 0"
    using of_nat_0_le_iff [of "getOrZero (dfMap st) t", where 'a = real] by linarith
  then show ?thesis by (simp add: idf_def idfValue_def jsDivide_def Let_def)
qed

lemma idfValue_quotient:
  "idfValue st t
     = ln ((real (length (storedDocs st)) + 1) / (real (getOrZero (dfMap st) t) + 0.5))"
proof -
  have pos: "real (getOrZero (dfMap st) t) + 0.5 \<noteq> 0"
    using of_nat_0_le_iff [of "getOrZero (dfMap st) t", where 'a = real] by linarith
  have "1 + (real (length (storedDocs st)) - real (getOrZero (dfMap st) t) + 0.5)
            / (real (getOrZero (dfMap st) t) + 0.5)
      = (real (length (storedDocs st)) + 1) / (real (getOrZero (dfMap st) t) + 0.5)"
    using pos by (simp add: field_simps)
  then show ?thesis by (simp add: idfValue_def)
qed

lemma orOne_pos: "0 \<le> x \<Longrightarrow> 0 < orOne x"
  by (simp add: orOne_def)

lemma bm25_denominator_pos:
  assumes "0 \<le> avg" and "0 \<le> dl" and "0 < tf"
  shows "0 < tf + bm25_k1 * (1 - bm25_b + bm25_b * dl / orOne avg)"
proof -
  have "0 \<le> bm25_b * dl / orOne avg"
    using assms(1,2) orOne_pos [OF assms(1)] by (simp add: bm25_b_def)
  then have "0 \<le> bm25_k1 * (1 - bm25_b + bm25_b * dl / orOne avg)"
    by (simp add: bm25_k1_def bm25_b_def)
  then show ?thesis using assms(3) by linarith
qed

lemma scoreStep_value:
  assumes "0 \<le> avgDocLength st" and "0 \<le> dl"
  shows "scoreStep st d dl score qt = Inr (score + termWeight st d dl qt)"
proof (cases "getOrZero (termFreq d) qt = 0")
  case True
  then show ?thesis by (simp add: scoreStep_def termWeight_def)
next
  case False
  then have tf: "0 < real (getOrZero (termFreq d) qt)" by simp
  have a: "orOne (avgDocLength st) \<noteq> 0" using orOne_pos [OF assms(1)] by simp
  have b: "real (getOrZero (termFreq d) qt)
             + bm25_k1 * (1 - bm25_b + bm25_b * dl / orOne (avgDocLength st)) \<noteq> 0"
    using bm25_denominator_pos [OF assms tf] by simp
  show ?thesis
    using False a b by (simp add: scoreStep_def termWeight_def jsDivide_def idf_value Let_def)
qed

lemma scoreLoop_value:
  assumes "0 \<le> avgDocLength st" and "0 \<le> dl"
  shows "scoreLoop st d dl score qts = Inr (score + sum_list (map (termWeight st d dl) qts))"
  by (induction qts arbitrary: score) (simp_all add: scoreStep_value [OF assms] add.assoc)

lemma orOne_length_nonneg: "0 \<le> orOne (real n)"
  by (simp add: orOne_def)

lemma docScore_value:
  "0 \<le> avgDocLength st \<Longrightarrow> docScore st qts d = Inr (scoreValue st qts d)"
  by (simp add: docScore_def scoreValue_def scoreLoop_value orOne_length_nonneg)

lemma scoreAll_value:
  "0 \<le> avgDocLength st \<Longrightarrow>
   scoreAll st qts docs = Inr (map (\<lambda>d. (d, scoreValue st qts d)) docs)"
  by (induction docs) (simp_all add: docScore_value)

lemma sliceTo_take: "0 \<le> k \<Longrightarrow> sliceTo k xs = take (nat k) xs"
  by (auto simp: sliceTo_def Let_def min_def)

lemma searchDocuments_value:
  assumes "0 \<le> avgDocLength st"
  shows "fst (searchDocuments st (JStr q) k) =
     Inr (if storedDocs st = [] \<or> tokenizeString q = [] then []
          else map (\<lambda>s. (pageContent (fst s), snd s))
                 (sliceTo k (filter (\<lambda>s. snd s > 0)
                    (sortByScoreDesc
                       (map (\<lambda>d. (d, scoreValue st (tokenizeString q) d)) (storedDocs st))))))"
  by (simp add: searchDocuments_def scoreAll_value [OF assms])

lemma maximalRuns_tokens:
  "t \<in> set (maximalRuns s) \<Longrightarrow> t \<noteq> [] \<and> (\<forall>c \<in> set t. isTokenChar c)"
proof (induction s rule: maximalRuns.induct)
  case 1
  then show ?case by simp
next
  case (2 c cs)
  show ?case
  proof (cases "isTokenChar c")
    case True
    then have "t = takeWhile isTokenChar (c # cs) \<or> t \<in> set (maximalRuns (dropWhile isTokenChar cs))"
      using "2.prems" by simp
    then show ?thesis
    proof
      assume t: "t = takeWhile isTokenChar (c # cs)"
      have "\<forall>x \<in> set (takeWhile isTokenChar (c # cs)). isTokenChar x"
        by (meson set_takeWhileD)
      then show ?thesis using True t by simp
    next
      assume "t \<in> set (maximalRuns (dropWhile isTokenChar cs))"
      then show ?thesis using "2.IH"(1) [OF True] by simp
    qed
  next
    case False
    then have "t \<in> set (maximalRuns cs)" using "2.prems" by simp
    then show ?thesis using "2.IH"(2) [OF False] by simp
  qed
qed

lemma recordInvariant_present:
  assumes "recordInvariant d" and "0 < getOrZero (termFreq d) t"
  shows "t \<in> set (tokens d)"
proof -
  have "getOrZero (termFreq d) t = count_list (tokens d) t"
    using assms(1) by (simp add: recordInvariant_def getOrZero_countInto)
  then show ?thesis using assms(2) by (metis count_notin less_numeral_extra(3))
qed

lemma idfValue_antimono:
  assumes "getOrZero (dfMap st) t1 \<le> getOrZero (dfMap st) t2"
  shows "idfValue st t2 \<le> idfValue st t1"
proof -
  let ?n = "real (length (storedDocs st)) + 1"
  let ?a = "real (getOrZero (dfMap st) t1) + 0.5"
  let ?b = "real (getOrZero (dfMap st) t2) + 0.5"
  have a: "0 < ?a" by (simp add: add_nonneg_pos)
  have ab: "?a \<le> ?b" using assms by simp
  have n: "0 < ?n" by (simp add: add_nonneg_pos)
  have "?n / ?b \<le> ?n / ?a" using a ab n by (simp add: frac_le)
  moreover have "0 < ?n / ?b" using a ab n by simp
  ultimately have "ln (?n / ?b) \<le> ln (?n / ?a)" by simp
  then show ?thesis by (simp add: idfValue_quotient)
qed

subsection \<open>Facts about ranking\<close>

lemma sortByScoreDesc_sorted: "sorted_wrt (\<lambda>a b. snd b \<le> snd a) (sortByScoreDesc scored)"
proof -
  have "sorted (map (\<lambda>s. - snd s) (sortByScoreDesc scored))"
    by (simp add: sortByScoreDesc_def)
  then show ?thesis by (simp add: sorted_wrt_map)
qed

lemma sortByScoreDesc_stable:
  "filter (\<lambda>s. snd s = v) (sortByScoreDesc scored) = filter (\<lambda>s. snd s = v) scored"
proof -
  have "filter (\<lambda>s. - snd s = - v) (sort_key (\<lambda>s. - snd s) scored)
          = filter (\<lambda>s. - snd s = - v) scored"
    by (rule sort_key_stable)
  then show ?thesis by (simp add: sortByScoreDesc_def)
qed

lemma sliceTo_prefix: "prefix (sliceTo k xs) xs"
  by (simp add: sliceTo_def Let_def take_is_prefix)

lemma rankEntries_length: "0 \<le> k \<Longrightarrow> int (length (rankEntries k scored)) \<le> k"
  by (simp add: rankEntries_def sliceTo_take)

lemma rankEntries_positive: "e \<in> set (rankEntries k scored) \<Longrightarrow> 0 < snd e"
proof -
  assume "e \<in> set (rankEntries k scored)"
  then obtain s where s: "s \<in> set (sliceTo k (filter (\<lambda>s. snd s > 0) (sortByScoreDesc scored)))"
    and e: "e = (pageContent (fst s), snd s)"
    by (auto simp: rankEntries_def)
  have "set (sliceTo k (filter (\<lambda>s. snd s > 0) (sortByScoreDesc scored)))
          \<subseteq> set (filter (\<lambda>s. snd s > 0) (sortByScoreDesc scored))"
    using sliceTo_prefix by (rule set_mono_prefix)
  then show ?thesis using s e by auto
qed

lemma rankEntries_sorted: "sorted_wrt (\<lambda>a b. snd b \<le> snd a) (rankEntries k scored)"
proof -
  have "sorted_wrt (\<lambda>a b. snd b \<le> snd a)
          (sliceTo k (filter (\<lambda>s. snd s > 0) (sortByScoreDesc scored)))"
    unfolding sliceTo_def Let_def
    by (intro sorted_wrt_take sorted_wrt_filter sortByScoreDesc_sorted)
  then show ?thesis by (simp add: rankEntries_def sorted_wrt_map)
qed

lemma rankEntries_stable:
  "prefix (filter (\<lambda>e. snd e = v) (rankEntries k scored))
          (filter (\<lambda>e. snd e = v) (map (\<lambda>s. (pageContent (fst s), snd s)) scored))"
proof -
  let ?f = "\<lambda>s :: document \<times> real. (pageContent (fst s), snd s)"
  let ?sorted = "filter (\<lambda>s. snd s > 0) (sortByScoreDesc scored)"
  have "filter (\<lambda>s. snd s = v) ?sorted
          = filter (\<lambda>s. snd s > 0) (filter (\<lambda>s. snd s = v) (sortByScoreDesc scored))"
    by (simp add: conj_commute)
  also have "\<dots> = filter (\<lambda>s. snd s > 0) (filter (\<lambda>s. snd s = v) scored)"
    by (simp only: sortByScoreDesc_stable)
  also have "\<dots> = (if 0 < v then filter (\<lambda>s. snd s = v) scored else [])"
    by (auto simp: filter_empty_conv intro: filter_cong)
  finally have "prefix (filter (\<lambda>s. snd s = v) ?sorted) (filter (\<lambda>s. snd s = v) scored)"
    by simp
  moreover have "prefix (filter (\<lambda>s. snd s = v) (sliceTo k ?sorted))
                        (filter (\<lambda>s. snd s = v) ?sorted)"
    using sliceTo_prefix by (rule filter_mono_prefix)
  ultimately have "prefix (filter (\<lambda>s. snd s = v) (sliceTo k ?sorted))
                          (filter (\<lambda>s. snd s = v) scored)"
    by (rule prefix_order.trans [rotated])
  then have "prefix (map ?f (filter (\<lambda>s. snd s = v) (sliceTo k ?sorted)))
                    (map ?f (filter (\<lambda>s. snd s = v) scored))"
    by (rule map_mono_prefix)
  then show ?thesis by (simp add: rankEntries_def filter_map o_def)
qed

lemma weighted_sum_list:
  fixes f :: "'a \<Rightarrow> real"
  shows "sum_list (map f xs) = (\<Sum>x \<in> set xs. real (count_list xs x) * f x)"
proof (induction xs)
  case Nil
  show ?case by simp
next
  case (Cons y ys)
  have split: "(\<Sum>x \<in> set (y # ys). real (count_list (y # ys) x) * f x)
      = (\<Sum>x \<in> set (y # ys). real (count_list ys x) * f x)
        + (\<Sum>x \<in> set (y # ys). if x = y then f x else 0)"
  proof -
    have "(\<Sum>x \<in> set (y # ys). real (count_list (y # ys) x) * f x)
        = (\<Sum>x \<in> set (y # ys). real (count_list ys x) * f x + (if x = y then f x else 0))"
      by (rule sum.cong) (auto simp: algebra_simps)
    then show ?thesis by (simp only: sum.distrib)
  qed
  have one: "(\<Sum>x \<in> set (y # ys). if x = y then f x else 0) = f y"
    by simp
  have rest: "(\<Sum>x \<in> set (y # ys). real (count_list ys x) * f x)
      = (\<Sum>x \<in> set ys. real (count_list ys x) * f x)"
  proof (cases "y \<in> set ys")
    case True
    then have "set (y # ys) = set ys" by auto
    then show ?thesis by simp
  next
    case False
    then show ?thesis by simp
  qed
  show ?case by (simp only: split one rest Cons.IH [symmetric]) simp
qed

lemma uniqueTokens_distinct: "distinct ts \<Longrightarrow> uniqueTokens ts = ts"
proof (induction ts)
  case Nil
  show ?case by simp
next
  case (Cons a ts)
  then have "filter (\<lambda>u. u \<noteq> a) ts = ts" by (auto simp: filter_id_conv)
  then show ?case using Cons by simp
qed

lemma tokenize_apple: "tokenizeString ''apple'' = [''apple'']"
  by code_simp

lemma tokenize_apple_apple: "tokenizeString ''apple apple'' = [''apple'', ''apple'']"
  by code_simp

lemma appleState_docs: "storedDocs appleState = [appleRecord]"
  by (simp add: appleState_def initializeVectorStore_def makeRecord_string tokenize_apple
      appleRecord_def)

lemma appleState_avg: "avgDocLength appleState = 1"
  by (simp add: appleState_def initializeVectorStore_def makeRecord_string tokenize_apple
      avgDocLength_rebuildIndex meanLength_def totalTokens_def)

lemma appleState_df: "getOrZero (dfMap appleState) ''apple'' = 1"
  by (simp add: appleState_def initializeVectorStore_def makeRecord_string tokenize_apple
      dfMap_rebuildIndex rebuildLoop_df docCount_def)

lemma appleRecord_tf: "getOrZero (termFreq appleRecord) ''apple'' = 1"
  by (simp add: appleRecord_def)

lemma appleRecord_weight:
  "termWeight appleState appleRecord (orOne (real (length (tokens appleRecord)))) ''apple''
     = ln (4 / 3)"
proof -
  have "idfValue appleState ''apple'' = ln (4 / 3)"
    by (simp add: idfValue_def appleState_df appleState_docs)
  then show ?thesis
    by (simp add: termWeight_def appleRecord_tf appleState_avg orOne_def bm25_k1_def
        bm25_b_def) (simp add: appleRecord_def)
qed

lemma ln_four_thirds_pos: "0 < ln (4 / 3 :: real)"
  by simp

lemma docScore_no_division_by_zero:
  "0 \<le> avgDocLength st \<Longrightarrow> docScore st qs d \<noteq> Inl DivisionByZero"
  by (simp add: docScore_value)

lemma totalTokens_zero:
  "totalTokens docs = 0 \<Longrightarrow> d \<in> set docs \<Longrightarrow> tokens d = []"
  by (induction docs) (auto simp: totalTokens_def)

lemma meanLength_zero:
  assumes "meanLength docs = 0" and "d \<in> set docs"
  shows "tokens d = []"
proof -
  have "docs \<noteq> []" using assms(2) by auto
  then have "totalTokens docs = 0" using assms(1) by (simp add: meanLength_def)
  then show ?thesis using assms(2) by (rule totalTokens_zero)
qed

lemma scoreValue_no_tokens:
  assumes "recordInvariant d" and "tokens d = []"
  shows "scoreValue st qs d = 0"
proof -
  have "\<And>t. getOrZero (termFreq d) t = 0"
    using assms by (simp add: recordInvariant_def)
  then have "termWeight st d (orOne (real (length (tokens d)))) = (\<lambda>t. 0)"
    by (intro ext) (simp add: termWeight_def)
  then show ?thesis by (simp add: scoreValue_def)
qed

lemma rankEntries_all_zero:
  assumes "\<forall>s \<in> set scored. snd s = 0"
  shows "rankEntries k scored = []"
proof -
  have "filter (\<lambda>s. snd s > 0) (sortByScoreDesc scored) = []"
    using assms by (auto simp: filter_empty_conv sortByScoreDesc_def)
  then show ?thesis by (simp add: rankEntries_def sliceTo_def)
qed

lemma tokenize_punctuation: "tokenizeString ''?!'' = []"
  by code_simp

lemma punctuationState_docs:
  "storedDocs punctuationState
     = [\<lparr>pageContent = JStr ''?!'', tokens = [], termFreq = countInto Map.empty []\<rparr>]"
  by (simp add: punctuationState_def initializeVectorStore_def makeRecord_string
      tokenize_punctuation)

lemma failedAdd_result:
  "addDocuments initialState [JStr ''apple'', JNull]
     = (Inl TypeError, initialState\<lparr>storedDocs := [appleRecord]\<rparr>)"
  by (simp add: addDocuments_def makeRecord_string makeRecord_not_string isString_def
      tokenize_apple initialState_def appleRecord_def)

lemma failedAddState_value:
  "failedAddState = \<lparr>storedDocs = [appleRecord], dfMap = Map.empty, avgDocLength = 0\<rparr>"
  unfolding failedAddState_def failedAdd_result by (simp add: initialState_def)

subsection \<open>Evaluation of the example states\<close>

lemma tokenize_apple_banana: "tokenizeString ''apple banana'' = [''apple'', ''banana'']"
  by code_simp

lemma tokenize_banana_cherry: "tokenizeString ''banana cherry'' = [''banana'', ''cherry'']"
  by code_simp

lemma tokenize_apple_cherry: "tokenizeString ''apple cherry'' = [''apple'', ''cherry'']"
  by code_simp

lemma pairState_docs: "storedDocs pairState = [appleBanana, bananaCherry]"
  by (simp add: pairState_def initializeVectorStore_def makeRecord_string
      tokenize_apple_banana tokenize_banana_cherry appleBanana_def bananaCherry_def)

lemma pairState_avg: "avgDocLength pairState = 2"
  by (simp add: pairState_def initializeVectorStore_def makeRecord_string
      tokenize_apple_banana tokenize_banana_cherry avgDocLength_rebuildIndex meanLength_def
      totalTokens_def)

lemma pairState_df:
  "getOrZero (dfMap pairState) ''apple'' = 1" "getOrZero (dfMap pairState) ''banana'' = 2"
  by (simp_all add: pairState_def initializeVectorStore_def makeRecord_string
      tokenize_apple_banana tokenize_banana_cherry dfMap_rebuildIndex rebuildLoop_df
      docCount_def)

lemma fruitState_docs: "storedDocs fruitState = [appleBanana, bananaCherry, appleCherry]"
  by (simp add: fruitState_def initializeVectorStore_def makeRecord_string
      tokenize_apple_banana tokenize_banana_cherry tokenize_apple_cherry
      appleBanana_def bananaCherry_def appleCherry_def)

lemma fruitState_avg: "avgDocLength fruitState = 2"
  by (simp add: fruitState_def initializeVectorStore_def makeRecord_string
      tokenize_apple_banana tokenize_banana_cherry tokenize_apple_cherry
      avgDocLength_rebuildIndex meanLength_def totalTokens_def)

lemma fruitState_df: "getOrZero (dfMap fruitState) ''apple'' = 2"
  by (simp add: fruitState_def initializeVectorStore_def makeRecord_string
      tokenize_apple_banana tokenize_banana_cherry tokenize_apple_cherry
      dfMap_rebuildIndex rebuildLoop_df docCount_def)

lemma fruit_tf:
  "getOrZero (termFreq appleBanana) ''apple'' = 1"
  "getOrZero (termFreq bananaCherry) ''apple'' = 0"
  "getOrZero (termFreq appleCherry) ''apple'' = 1"
  "getOrZero (termFreq bananaCherry) ''banana'' = 1"
  by (simp_all add: appleBanana_def bananaCherry_def appleCherry_def)

lemma fruit_idf: "idfValue fruitState ''apple'' = ln (8 / 5)"
  by (simp add: idfValue_def fruitState_df fruitState_docs)

lemma fruit_scores:
  "scoreValue fruitState [''apple''] appleBanana = ln (8 / 5)"
  "scoreValue fruitState [''apple''] bananaCherry = 0"
  "scoreValue fruitState [''apple''] appleCherry = ln (8 / 5)"
  by (simp_all add: scoreValue_def termWeight_def fruit_tf fruit_idf fruitState_avg orOne_def
      bm25_k1_def bm25_b_def appleBanana_def bananaCherry_def appleCherry_def)

lemma fruit_search:
  "fst (searchDocuments fruitState (JStr ''apple'') 2)
     = Inr [(JStr ''apple banana'', ln (8 / 5)), (JStr ''apple cherry'', ln (8 / 5))]"
proof -
  have avg: "0 \<le> avgDocLength fruitState" by (simp add: fruitState_avg)
  have pos: "0 < ln (8 / 5 :: real)" by simp
  have srt: "sortByScoreDesc [(appleBanana, ln (8 / 5)), (bananaCherry, 0), (appleCherry, ln (8 / 5))]
      = [(appleBanana, ln (8 / 5)), (appleCherry, ln (8 / 5)), (bananaCherry, 0)]"
    using pos by (simp add: sortByScoreDesc_def)
  show ?thesis
    using pos
    by (simp add: searchDocuments_value [OF avg] tokenize_apple fruitState_docs fruit_scores
        srt sliceTo_def) (simp add: appleBanana_def appleCherry_def)
qed

subsection \<open>Divisors of a search\<close>

text \<open>
  In every state the module can reach, also through failed calls, no division of a
  search has a zero divisor: the search does not end in \<open>DivisionByZero\<close> for any query
  value, nor does the scoring of any record against any query, nor \<open>idf\<close>. For a string
  query the search returns a list, and the list is empty when the mean length of the
  stored records is 0, hence when \<open>avgDocLength\<close> is 0 and the statistics are the ones of
  the store.
\<close>

lemma search_divisors_nonzero:
  assumes "reachable st"
  shows "fst (searchDocuments st query k) \<noteq> Inl DivisionByZero
       \<and> (\<forall>d qs. docScore st qs d \<noteq> Inl DivisionByZero)
       \<and> (\<forall>t. idf st t \<noteq> Inl DivisionByZero)
       \<and> (\<exists>res. fst (searchDocuments st (JStr q) k) = Inr res
                \<and> (meanLength (storedDocs st) = 0 \<longrightarrow> res = [])
                \<and> (statsConsistent st \<and> avgDocLength st = 0 \<longrightarrow> res = []))"
proof -
  have inv: "stateInvariant st" using assms by (rule reachable_invariant)
  then have avg: "0 \<le> avgDocLength st" by (simp add: stateInvariant_def)
  have a: "fst (searchDocuments st query k) \<noteq> Inl DivisionByZero"
  proof (cases query)
    case (JStr s)
    then show ?thesis by (simp add: searchDocuments_value [OF avg])
  qed (simp_all add: searchDocuments_def)
  have b: "\<forall>d qs. docScore st qs d \<noteq> Inl DivisionByZero"
    using avg by (simp add: docScore_no_division_by_zero)
  have c: "\<forall>t. idf st t \<noteq> Inl DivisionByZero" by (simp add: idf_value)
  let ?scored = "map (\<lambda>d. (d, scoreValue st (tokenizeString q) d)) (storedDocs st)"
  let ?res = "if storedDocs st = [] \<or> tokenizeString q = [] then [] else rankEntries k ?scored"
  have res: "fst (searchDocuments st (JStr q) k) = Inr ?res"
    by (simp add: searchDocuments_value [OF avg] rankEntries_def)
  have empty: "meanLength (storedDocs st) = 0 \<longrightarrow> ?res = []"
  proof
    assume m: "meanLength (storedDocs st) = 0"
    have "\<forall>s \<in> set ?scored. snd s = 0"
    proof
      fix s assume "s \<in> set ?scored"
      then obtain d where d: "d \<in> set (storedDocs st)"
        and s: "s = (d, scoreValue st (tokenizeString q) d)" by auto
      have "recordInvariant d" using inv d by (simp add: stateInvariant_def)
      moreover have "tokens d = []" using m d by (rule meanLength_zero)
      ultimately show "snd s = 0" by (simp add: s scoreValue_no_tokens)
    qed
    then have "rankEntries k ?scored = []" by (rule rankEntries_all_zero)
    then show "?res = []" by simp
  qed
  then have "statsConsistent st \<and> avgDocLength st = 0 \<longrightarrow> ?res = []"
    by (simp add: statsConsistent_def)
  then show ?thesis using a b c res empty by blast
qed

lemma search_divisors_nonzero_example:
  "reachable punctuationState
   \<and> storedDocs punctuationState \<noteq> []
   \<and> meanLength (storedDocs punctuationState) = 0
   \<and> statsConsistent punctuationState
   \<and> avgDocLength punctuationState = 0
   \<and> fst (searchDocuments punctuationState (JStr ''hello'') 5) = Inr []"
proof -
  have s: "statsConsistent punctuationState"
    unfolding punctuationState_def
    by (intro initialize_keeps_consistent initialState_consistent)
  have r: "reachable punctuationState"
    unfolding punctuationState_def by (intro reachable.afterInitialize reachable.atStart)
  have m: "meanLength (storedDocs punctuationState) = 0"
    by (simp add: punctuationState_docs meanLength_def totalTokens_def)
  have a: "avgDocLength punctuationState = 0"
    using m by (simp add: punctuationState_def initializeVectorStore_def makeRecord_string
      tokenize_punctuation avgDocLength_rebuildIndex)
  have "fst (searchDocuments punctuationState (JStr ''hello'') 5) = Inr []"
    using search_divisors_nonzero [OF r, of "JStr ''hello''" 5 "''hello''"] m by auto
  then show ?thesis using r m a s by (simp add: punctuationState_docs)
qed

lemma termWeight_formula:
  assumes "0 < avgDocLength st" and "recordInvariant d"
  shows "termWeight st d (orOne (real (length (tokens d)))) t
     = (if getOrZero (termFreq d) t = 0 then 0
        else ln (1 + (real (length (storedDocs st)) - real (getOrZero (dfMap st) t) + 0.5)
                    / (real (getOrZero (dfMap st) t) + 0.5))
             * (real (getOrZero (termFreq d) t) * (1.5 + 1))
             / (real (getOrZero (termFreq d) t)
                + 1.5 * (1 - 0.75 + 0.75 * real (length (tokens d)) / avgDocLength st)))"
proof (cases "getOrZero (termFreq d) t = 0")
  case True
  then show ?thesis by (simp add: termWeight_def)
next
  case False
  then have "0 < getOrZero (termFreq d) t" by simp
  with assms(2) have "t \<in> set (tokens d)" by (rule recordInvariant_present)
  then have "tokens d \<noteq> []" by auto
  then have dl: "orOne (real (length (tokens d))) = real (length (tokens d))"
    by (simp add: orOne_def)
  have avg: "orOne (avgDocLength st) = avgDocLength st"
    using assms(1) by (simp add: orOne_def)
  show ?thesis
    using False by (simp add: termWeight_def idfValue_def dl avg bm25_k1_def bm25_b_def)
qed

lemma scoreValue_snoc:
  "scoreValue st (qs @ [t]) d
     = scoreValue st qs d + termWeight st d (orOne (real (length (tokens d)))) t"
  by (simp add: scoreValue_def)

section \<open>The claims\<close>

subsection \<open>The tokenizer\<close>

text \<open>
  C9. The claim is that the tokens are the maximal runs of \<^verbatim>\<open>[a-z0-9]\<close> of the
  lower-cased input and that every non-ASCII character is a separator. It holds in this
  form: \<open>tokenize\<close> is total on strings and returns, in order, the maximal runs of
  characters of \<^verbatim>\<open>[a-z0-9]\<close> of the lower-cased input; every character of the
  lower-cased input outside \<^verbatim>\<open>[a-z0-9]\<close>, the non-ASCII ones among them, is a separator;
  a string without a token character after lower-casing (the empty string among them)
  gives no token. The runs are given twice: by the function \<open>maximalRuns\<close> and by the
  relation \<open>runsOf\<close>, which cuts the string into gaps of separator characters and tokens
  that cannot be extended; the relation holds of the result and of no other list. The
  tokens are the same for every way of writing the separators of the lower-cased input. A
  non-ASCII character of the input is not always a separator, since lower-casing can turn
  it into a letter, as it does for U+212A and U+0130.
\<close>

theorem tokenize_maximal_runs:
  "tokenize (JStr s) = Inr (maximalRuns (toLowerCase s))
   \<and> runsOf (toLowerCase s) (maximalRuns (toLowerCase s))
   \<and> (\<forall>ts. runsOf (toLowerCase s) ts \<longrightarrow> ts = maximalRuns (toLowerCase s))
   \<and> (\<forall>t \<in> set (maximalRuns (toLowerCase s)). t \<noteq> [] \<and> (\<forall>c \<in> set t. isTokenChar c))
   \<and> ((\<forall>c \<in> set (toLowerCase s). isSepChar c) \<longrightarrow> tokenize (JStr s) = Inr [])
   \<and> (\<forall>c \<in> set (toLowerCase s). (128::nat) \<le> of_char c \<longrightarrow> isSepChar c)
   \<and> (\<forall>low. sepEquivalent (toLowerCase s) low \<longrightarrow> maximalRuns low = maximalRuns (toLowerCase s))
   \<and> tokenize (JStr []) = Inr []"
proof (intro conjI)
  show "tokenize (JStr s) = Inr (maximalRuns (toLowerCase s))"
    by (simp add: tokenizeString_runs)
  show "runsOf (toLowerCase s) (maximalRuns (toLowerCase s))"
    by (rule runsOf_maximalRuns)
  show "\<forall>ts. runsOf (toLowerCase s) ts \<longrightarrow> ts = maximalRuns (toLowerCase s)"
    by (simp add: runsOf_unique)
  show "\<forall>t \<in> set (maximalRuns (toLowerCase s)). t \<noteq> [] \<and> (\<forall>c \<in> set t. isTokenChar c)"
    using maximalRuns_tokens by blast
  show "(\<forall>c \<in> set (toLowerCase s). isSepChar c) \<longrightarrow> tokenize (JStr s) = Inr []"
  proof
    assume "\<forall>c \<in> set (toLowerCase s). isSepChar c"
    then have "maximalRuns (toLowerCase s) = []"
      using maximalRuns_gap [of "toLowerCase s" "[]"] by simp
    then show "tokenize (JStr s) = Inr []" by (simp add: tokenizeString_runs)
  qed
  show "\<forall>c \<in> set (toLowerCase s). (128::nat) \<le> of_char c \<longrightarrow> isSepChar c"
    by (simp add: non_ascii_is_separator)
  show "\<forall>low. sepEquivalent (toLowerCase s) low \<longrightarrow> maximalRuns low = maximalRuns (toLowerCase s)"
    using sepEquivalent_runs by metis
  show "tokenize (JStr []) = Inr []"
    by (simp add: tokenizeString_runs)
qed

text \<open>
  C9 as amended, at two inputs: a text with capitals, punctuation and digits, and a text
  of punctuation and of the two bytes of U+00E9, which stay separators.
\<close>

theorem tokenize_maximal_runs_witness:
  "tokenize (JStr ''Hello, World! 42'') = Inr [''hello'', ''world'', ''42'']
   \<and> runsOf ''hello, world! 42'' [''hello'', ''world'', ''42'']
   \<and> list_all isSepChar (toLowerCase ([CHR 0xC3, CHR 0xA9] @ ''?! -- ...''))
   \<and> tokenize (JStr ([CHR 0xC3, CHR 0xA9] @ ''?! -- ...'')) = Inr []"
proof -
  have low: "toLowerCase ''Hello, World! 42'' = ''hello, world! 42''"
    by code_simp
  have runs: "maximalRuns ''hello, world! 42'' = [''hello'', ''world'', ''42'']"
    by code_simp
  have a: "tokenize (JStr ''Hello, World! 42'') = Inr [''hello'', ''world'', ''42'']"
    using tokenize_maximal_runs [of "''Hello, World! 42''"] by (simp only: low runs)
  have b: "runsOf ''hello, world! 42'' [''hello'', ''world'', ''42'']"
    using tokenize_maximal_runs [of "''Hello, World! 42''"] by (simp only: low runs)
  have c: "list_all isSepChar (toLowerCase ([CHR 0xC3, CHR 0xA9] @ ''?! -- ...''))"
    by code_simp
  then have "\<forall>c \<in> set (toLowerCase ([CHR 0xC3, CHR 0xA9] @ ''?! -- ...'')). isSepChar c"
    by (simp only: list_all_iff)
  then have d: "tokenize (JStr ([CHR 0xC3, CHR 0xA9] @ ''?! -- ...'')) = Inr []"
    using tokenize_maximal_runs [of "[CHR 0xC3, CHR 0xA9] @ ''?! -- ...''"] by blast
  show ?thesis using a b c d by blast
qed

text \<open>
  C9 as stated fails at the string of the single character U+212A KELVIN SIGN, whose
  three bytes are all beyond ASCII: its token is \<^verbatim>\<open>k\<close>. The string of U+212A,
  \<^verbatim>\<open>elvin\<close>, a blank, U+0130 and \<^verbatim>\<open>x\<close> has the tokens \<^verbatim>\<open>kelvin\<close>, \<^verbatim>\<open>i\<close> and \<^verbatim>\<open>x\<close>.
\<close>

theorem non_ascii_letter_counterexample:
  "(128::nat) \<le> of_char (CHR 0xE2) \<and> (128::nat) \<le> of_char (CHR 0x84)
   \<and> (128::nat) \<le> of_char (CHR 0xAA)
   \<and> tokenize (JStr [CHR 0xE2, CHR 0x84, CHR 0xAA]) = Inr [''k'']
   \<and> tokenize (JStr ([CHR 0xE2, CHR 0x84, CHR 0xAA] @ ''elvin '' @ [CHR 0xC4, CHR 0xB0] @ ''x''))
       = Inr [''kelvin'', ''i'', ''x'']"
proof -
  have a: "tokenizeString [CHR 0xE2, CHR 0x84, CHR 0xAA] = [''k'']"
    by code_simp
  have b: "tokenizeString ([CHR 0xE2, CHR 0x84, CHR 0xAA] @ ''elvin '' @ [CHR 0xC4, CHR 0xB0] @ ''x'')
             = [''kelvin'', ''i'', ''x'']"
    by code_simp
  show ?thesis using a b by simp
qed

subsection \<open>The two mutations\<close>

text \<open>
  C2. A batch with an entry that is not a string is to fail as a whole and to leave the
  store and the statistics as they were. \<open>initializeVectorStore\<close> does so (lemma
  \<open>initialize_failure\<close>). \<open>addDocuments\<close> does not: on a fresh module,
  \<^verbatim>\<open>addDocuments(["apple", null])\<close> ends in a TypeError after the record of
  \<^verbatim>\<open>"apple"\<close> has been pushed. The store was empty before the call and holds that
  record after it, and the search for \<^verbatim>\<open>"apple"\<close>, empty before the call, returns the
  record after it (with the score \<open>ln 4\<close>, computed from the statistics of the empty
  store).
\<close>

theorem failed_add_leaves_partial_batch:
  "fst (addDocuments initialState [JStr ''apple'', JNull]) = Inl TypeError
   \<and> storedDocs initialState = []
   \<and> map pageContent (storedDocs (snd (addDocuments initialState [JStr ''apple'', JNull])))
       = [JStr ''apple'']
   \<and> fst (searchDocuments initialState (JStr ''apple'') 5) = Inr []
   \<and> fst (searchDocuments (snd (addDocuments initialState [JStr ''apple'', JNull]))
            (JStr ''apple'') 5) = Inr [(JStr ''apple'', ln 4)]"
proof -
  let ?st = "initialState\<lparr>storedDocs := [appleRecord]\<rparr>"
  have avg: "0 \<le> avgDocLength ?st" by (simp add: initialState_def)
  have idf4: "idfValue ?st ''apple'' = ln 4"
    by (simp add: idfValue_def initialState_def)
  have w: "scoreValue ?st [''apple''] appleRecord = ln 4"
    by (simp add: scoreValue_def termWeight_def appleRecord_tf idf4 orOne_def bm25_k1_def
        bm25_b_def) (simp add: appleRecord_def initialState_def)
  have "fst (searchDocuments ?st (JStr ''apple'') 5) = Inr [(JStr ''apple'', ln 4)]"
    by (simp add: searchDocuments_value [OF avg] tokenize_apple w sortByScoreDesc_def
        sliceTo_def) (simp add: appleRecord_def)
  then show ?thesis
    by (simp add: failedAdd_result) (simp add: searchDocuments_def initialState_def appleRecord_def)
qed

text \<open>
  C3. The statistics are to agree with the store after every mutation, completed or
  failed. They do after every completed mutation and after a failed
  \<open>initializeVectorStore\<close> (lemmas \<open>initialize_keeps_consistent\<close> and
  \<open>addDocuments_success_consistent\<close>). After the failed \<open>addDocuments\<close> of C2 they do
  not: one stored record holds \<^verbatim>\<open>apple\<close>, but \<open>dfMap\<close> has no entry for it, and the
  mean length of the stored records is 1, but \<open>avgDocLength\<close> is 0.
\<close>

theorem failed_add_leaves_stale_statistics:
  "fst (addDocuments initialState [JStr ''apple'', JNull]) = Inl TypeError
   \<and> length (storedDocs failedAddState) = 1
   \<and> docCount (storedDocs failedAddState) ''apple'' = 1
   \<and> dfMap failedAddState ''apple'' = None
   \<and> meanLength (storedDocs failedAddState) = 1
   \<and> avgDocLength failedAddState = 0
   \<and> \<not> statsConsistent failedAddState"
proof -
  have m: "meanLength (storedDocs failedAddState) = 1"
    by (simp add: failedAddState_value meanLength_def totalTokens_def appleRecord_def)
  have a: "avgDocLength failedAddState = 0" by (simp add: failedAddState_value)
  have "\<not> statsConsistent failedAddState"
    using m a by (simp add: statsConsistent_def)
  then show ?thesis using m a
    by (simp add: failedAdd_result) (simp add: failedAddState_value docCount_def appleRecord_def)
qed

subsection \<open>Scoring\<close>

text \<open>
  C4. In a state whose \<open>avgDocLength\<close> is positive, for a record that satisfies the
  record invariant: \<open>idf\<close> is \<open>ln (1 + (N - df + 0.5) / (df + 0.5))\<close>; the score of the
  record against a query token \<open>t\<close> alone, whose term frequency \<open>tf\<close> in the record is
  positive, is \<open>idf * (tf * (k1 + 1)) / (tf + k1 * (1 - b + b * |tokens| / avgDocLength))\<close>
  with \<open>k1 = 1.5\<close> and \<open>b = 0.75\<close>, and it is 0 when the term frequency is 0; appended to
  any query, the token adds just this to the score of the record against the query. A
  missing key of \<open>dfMap\<close> or \<open>termFreq\<close> reads as 0 (\<open>getOrZero\<close>).
\<close>

theorem bm25_term_contribution:
  assumes "0 < avgDocLength st" and "recordInvariant d"
  shows "idf st t = Inr (ln (1 + (real (length (storedDocs st)) - real (getOrZero (dfMap st) t) + 0.5)
                              / (real (getOrZero (dfMap st) t) + 0.5)))
    \<and> (0 < getOrZero (termFreq d) t \<longrightarrow>
         docScore st [t] d
           = Inr (ln (1 + (real (length (storedDocs st)) - real (getOrZero (dfMap st) t) + 0.5)
                         / (real (getOrZero (dfMap st) t) + 0.5))
                  * (real (getOrZero (termFreq d) t) * (1.5 + 1))
                  / (real (getOrZero (termFreq d) t)
                     + 1.5 * (1 - 0.75 + 0.75 * real (length (tokens d)) / avgDocLength st))))
    \<and> (getOrZero (termFreq d) t = 0 \<longrightarrow> docScore st [t] d = Inr 0)
    \<and> (\<exists>s. docScore st qs d = Inr s
          \<and> (0 < getOrZero (termFreq d) t \<longrightarrow>
               docScore st (qs @ [t]) d
                 = Inr (s + ln (1 + (real (length (storedDocs st))
                                      - real (getOrZero (dfMap st) t) + 0.5)
                                   / (real (getOrZero (dfMap st) t) + 0.5))
                            * (real (getOrZero (termFreq d) t) * (1.5 + 1))
                            / (real (getOrZero (termFreq d) t)
                               + 1.5 * (1 - 0.75
                                        + 0.75 * real (length (tokens d)) / avgDocLength st))))
          \<and> (getOrZero (termFreq d) t = 0 \<longrightarrow> docScore st (qs @ [t]) d = Inr s))"
proof -
  have avg: "0 \<le> avgDocLength st" using assms(1) by simp
  note w = termWeight_formula [OF assms, of t]
  have a: "idf st t = Inr (ln (1 + (real (length (storedDocs st)) - real (getOrZero (dfMap st) t) + 0.5)
                              / (real (getOrZero (dfMap st) t) + 0.5)))"
    by (simp add: idf_value idfValue_def)
  have one: "docScore st [t] d = Inr (termWeight st d (orOne (real (length (tokens d)))) t)"
    by (simp add: docScore_value [OF avg] scoreValue_def)
  have qs: "docScore st qs d = Inr (scoreValue st qs d)"
    by (rule docScore_value [OF avg])
  have snoc: "docScore st (qs @ [t]) d
      = Inr (scoreValue st qs d + termWeight st d (orOne (real (length (tokens d)))) t)"
    by (simp only: docScore_value [OF avg] scoreValue_snoc)
  show ?thesis
    unfolding one snoc qs w using a by simp
qed

text \<open>
  C4 on the index of the single text \<^verbatim>\<open>"apple"\<close>: the record scores \<open>ln (4 / 3)\<close>
  against \<^verbatim>\<open>apple\<close>, 0 against \<^verbatim>\<open>pear\<close> and \<open>ln (4 / 3)\<close> against \<^verbatim>\<open>pear apple\<close>,
  and the search for \<^verbatim>\<open>"apple"\<close> returns the text with the score \<open>ln (4 / 3)\<close>.
\<close>

theorem bm25_term_contribution_witness:
  "0 < avgDocLength appleState
   \<and> recordInvariant appleRecord
   \<and> 0 < getOrZero (termFreq appleRecord) ''apple''
   \<and> getOrZero (termFreq appleRecord) ''pear'' = 0
   \<and> docScore appleState [''apple''] appleRecord = Inr (ln (4 / 3))
   \<and> docScore appleState [''pear''] appleRecord = Inr 0
   \<and> docScore appleState [''pear'', ''apple''] appleRecord = Inr (ln (4 / 3))
   \<and> fst (searchDocuments appleState (JStr ''apple'') 5) = Inr [(JStr ''apple'', ln (4 / 3))]"
proof -
  have avg: "0 < avgDocLength appleState" by (simp add: appleState_avg)
  have inv: "recordInvariant appleRecord" by (simp add: recordInvariant_def appleRecord_def)
  have tf: "0 < getOrZero (termFreq appleRecord) ''apple''" by (simp add: appleRecord_tf)
  have no: "getOrZero (termFreq appleRecord) ''pear'' = 0" by (simp add: appleRecord_def)
  have len: "length (tokens appleRecord) = 1" by (simp add: appleRecord_def)
  have one: "docScore appleState [''apple''] appleRecord = Inr (ln (4 / 3))"
    using bm25_term_contribution [OF avg inv, of "''apple''" "[]"] tf
    by (simp add: appleRecord_tf appleState_df appleState_docs appleState_avg len)
  have pear: "docScore appleState [''pear''] appleRecord = Inr 0"
    using bm25_term_contribution [OF avg inv, of "''pear''" "[]"] no by blast
  have both: "docScore appleState [''pear'', ''apple''] appleRecord = Inr (ln (4 / 3))"
    using bm25_term_contribution [OF avg inv, of "''apple''" "[''pear'']"] tf pear
    by (simp add: appleRecord_tf appleState_df appleState_docs appleState_avg len)
  have avg0: "0 \<le> avgDocLength appleState" using avg by simp
  have sv: "scoreValue appleState [''apple''] appleRecord = ln (4 / 3)"
    using one by (simp add: docScore_value [OF avg0])
  have srch: "fst (searchDocuments appleState (JStr ''apple'') 5) = Inr [(JStr ''apple'', ln (4 / 3))]"
    using ln_four_thirds_pos
    by (simp add: searchDocuments_value [OF avg0] tokenize_apple appleState_docs sv
        sortByScoreDesc_def sliceTo_def) (simp add: appleRecord_def)
  show ?thesis using avg inv tf no one pear both srch by blast
qed

text \<open>
  C1. The claim is that a record scores the same against a query and against the query
  with its repeated tokens removed. The loop of \<open>searchDocuments\<close> runs over every
  position of the query, so the claim holds in this form: in a state with
  \<open>0 \<le> avgDocLength\<close> (every state of the module is one), the score of a record
  against a query \<open>Q\<close> is the sum, over the distinct tokens \<open>t\<close> of \<open>Q\<close>, of the number of
  occurrences of \<open>t\<close> in \<open>Q\<close> times the score of the record against \<open>t\<close> alone; a query
  without repeated tokens scores as its deduplicated sequence does.
\<close>

theorem score_counts_query_occurrences:
  assumes "0 \<le> avgDocLength st"
  shows "\<exists>w. (\<forall>t. docScore st [t] d = Inr (w t))
            \<and> docScore st Q d = Inr (\<Sum>t \<in> set Q. real (count_list Q t) * w t)
            \<and> (distinct Q \<longrightarrow> docScore st Q d = docScore st (uniqueTokens Q) d)"
proof -
  let ?w = "termWeight st d (orOne (real (length (tokens d))))"
  have single: "\<forall>t. docScore st [t] d = Inr (?w t)"
    using assms by (simp add: docScore_value scoreValue_def)
  have whole: "docScore st Q d = Inr (\<Sum>t \<in> set Q. real (count_list Q t) * ?w t)"
    using assms by (simp add: docScore_value scoreValue_def weighted_sum_list)
  have "distinct Q \<longrightarrow> docScore st Q d = docScore st (uniqueTokens Q) d"
    by (simp add: uniqueTokens_distinct)
  then show ?thesis using single whole by blast
qed

text \<open>
  C1 as amended, on the index of the single text \<^verbatim>\<open>"apple"\<close> and the query tokens
  \<^verbatim>\<open>apple apple\<close>: the score is twice \<open>ln (4 / 3)\<close>, the score against \<^verbatim>\<open>apple\<close>.
\<close>

theorem score_counts_query_occurrences_witness:
  "0 \<le> avgDocLength appleState
   \<and> docScore appleState [''apple''] appleRecord = Inr (ln (4 / 3))
   \<and> docScore appleState [''apple'', ''apple''] appleRecord = Inr (2 * ln (4 / 3))"
proof -
  have avg: "0 \<le> avgDocLength appleState" by (simp add: appleState_avg)
  obtain w where w: "\<forall>t. docScore appleState [t] appleRecord = Inr (w t)"
    and q: "docScore appleState [''apple'', ''apple''] appleRecord
              = Inr (\<Sum>t \<in> set [''apple'', ''apple'']. real (count_list [''apple'', ''apple''] t) * w t)"
    using score_counts_query_occurrences [OF avg, of appleRecord "[''apple'', ''apple'']"]
    by blast
  have one: "docScore appleState [''apple''] appleRecord = Inr (ln (4 / 3))"
    by (simp add: docScore_value [OF avg] scoreValue_def appleRecord_weight)
  then have "w ''apple'' = ln (4 / 3)" using w by simp
  then have "docScore appleState [''apple'', ''apple''] appleRecord = Inr (2 * ln (4 / 3))"
    using q by simp
  then show ?thesis using avg one by blast
qed

text \<open>
  C1 as stated fails on the index of the single text \<^verbatim>\<open>"apple"\<close>: the record scores
  \<open>2 * ln (4 / 3)\<close> against the query tokens \<^verbatim>\<open>apple apple\<close> and \<open>ln (4 / 3)\<close> against
  their deduplicated sequence, and the searches for \<^verbatim>\<open>"apple apple"\<close> and for
  \<^verbatim>\<open>"apple"\<close> return different entries.
\<close>

theorem repeated_query_token_counterexample:
  "storedDocs appleState = [appleRecord]
   \<and> docScore appleState [''apple'', ''apple''] appleRecord
       \<noteq> docScore appleState (uniqueTokens [''apple'', ''apple'']) appleRecord
   \<and> fst (searchDocuments appleState (JStr ''apple apple'') 5)
       \<noteq> fst (searchDocuments appleState (JStr ''apple'') 5)"
proof (intro conjI)
  have avg: "0 \<le> avgDocLength appleState" by (simp add: appleState_avg)
  show "storedDocs appleState = [appleRecord]" by (rule appleState_docs)
  have two: "docScore appleState [''apple'', ''apple''] appleRecord = Inr (ln (4 / 3) + ln (4 / 3))"
    by (simp add: docScore_value [OF avg] scoreValue_def appleRecord_weight)
  have one: "docScore appleState [''apple''] appleRecord = Inr (ln (4 / 3))"
    by (simp add: docScore_value [OF avg] scoreValue_def appleRecord_weight)
  show "docScore appleState [''apple'', ''apple''] appleRecord
       \<noteq> docScore appleState (uniqueTokens [''apple'', ''apple'']) appleRecord"
    using ln_four_thirds_pos by (simp add: one two)
  have r2: "fst (searchDocuments appleState (JStr ''apple apple'') 5)
               = Inr [(JStr ''apple'', ln (4 / 3) + ln (4 / 3))]"
    using ln_four_thirds_pos
    by (simp add: searchDocuments_value [OF avg] tokenize_apple_apple appleState_docs
        scoreValue_def appleRecord_weight sortByScoreDesc_def sliceTo_def)
       (simp add: appleRecord_def)
  have r1: "fst (searchDocuments appleState (JStr ''apple'') 5) = Inr [(JStr ''apple'', ln (4 / 3))]"
    using ln_four_thirds_pos
    by (simp add: searchDocuments_value [OF avg] tokenize_apple appleState_docs
        scoreValue_def appleRecord_weight sortByScoreDesc_def sliceTo_def)
       (simp add: appleRecord_def)
  show "fst (searchDocuments appleState (JStr ''apple apple'') 5)
       \<noteq> fst (searchDocuments appleState (JStr ''apple'') 5)"
    using ln_four_thirds_pos by (simp add: r1 r2)
qed

text \<open>
  C6. In a state with \<open>0 \<le> avgDocLength\<close>, let \<open>t1\<close> have a smaller document frequency
  than \<open>t2\<close>, and let two records have the same length and the same term frequency for
  \<open>t1\<close> and \<open>t2\<close> respectively. Then both scores against the single token exist, and the
  score of the first record against \<open>t1\<close> is at least the score of the second against
  \<open>t2\<close>. The bound of the document frequencies by the corpus size is not needed.
\<close>

theorem rarer_token_scores_higher:
  assumes "0 \<le> avgDocLength st"
    and "getOrZero (dfMap st) t1 < getOrZero (dfMap st) t2"
    and "getOrZero (termFreq d1) t1 = getOrZero (termFreq d2) t2"
    and "length (tokens d1) = length (tokens d2)"
  shows "\<exists>s1 s2. docScore st [t1] d1 = Inr s1 \<and> docScore st [t2] d2 = Inr s2 \<and> s2 \<le> s1"
proof -
  let ?dl = "orOne (real (length (tokens d2)))"
  let ?tf = "real (getOrZero (termFreq d2) t2)"
  let ?q = "?tf * (bm25_k1 + 1) / (?tf + bm25_k1 * (1 - bm25_b + bm25_b * ?dl / orOne (avgDocLength st)))"
  have s1: "docScore st [t1] d1 = Inr (termWeight st d1 ?dl t1)"
    using assms(1,4) by (simp add: docScore_value scoreValue_def)
  have s2: "docScore st [t2] d2 = Inr (termWeight st d2 ?dl t2)"
    using assms(1) by (simp add: docScore_value scoreValue_def)
  have "termWeight st d2 ?dl t2 \<le> termWeight st d1 ?dl t1"
  proof (cases "getOrZero (termFreq d2) t2 = 0")
    case True
    then show ?thesis using assms(3) by (simp add: termWeight_def)
  next
    case False
    then have tf: "0 < ?tf" by simp
    have "0 < ?tf + bm25_k1 * (1 - bm25_b + bm25_b * ?dl / orOne (avgDocLength st))"
      using assms(1) orOne_length_nonneg tf by (rule bm25_denominator_pos)
    moreover have "0 \<le> ?tf * (bm25_k1 + 1)" by (simp add: bm25_k1_def)
    ultimately have q: "0 \<le> ?q" by (intro divide_nonneg_pos)
    have "idfValue st t2 \<le> idfValue st t1"
      using assms(2) by (intro idfValue_antimono) simp
    then have "idfValue st t2 * ?q \<le> idfValue st t1 * ?q"
      using q by (rule mult_right_mono)
    then show ?thesis using False assms(3) by (simp add: termWeight_def)
  qed
  then show ?thesis using s1 s2 by blast
qed

text \<open>
  C6 on the index of \<^verbatim>\<open>"apple banana"\<close> and \<^verbatim>\<open>"banana cherry"\<close>: \<^verbatim>\<open>apple\<close> is in
  one record, \<^verbatim>\<open>banana\<close> in two, each once in a record of two tokens.
\<close>

theorem rarer_token_scores_higher_witness:
  "0 \<le> avgDocLength pairState
   \<and> getOrZero (dfMap pairState) ''apple'' < getOrZero (dfMap pairState) ''banana''
   \<and> getOrZero (termFreq appleBanana) ''apple'' = getOrZero (termFreq bananaCherry) ''banana''
   \<and> length (tokens appleBanana) = length (tokens bananaCherry)
   \<and> (\<exists>s1 s2. docScore pairState [''apple''] appleBanana = Inr s1
             \<and> docScore pairState [''banana''] bananaCherry = Inr s2 \<and> s2 \<le> s1)"
proof -
  have a: "0 \<le> avgDocLength pairState" by (simp add: pairState_avg)
  have b: "getOrZero (dfMap pairState) ''apple'' < getOrZero (dfMap pairState) ''banana''"
    by (simp add: pairState_df)
  have c: "getOrZero (termFreq appleBanana) ''apple''
             = getOrZero (termFreq bananaCherry) ''banana''"
    by (simp add: fruit_tf)
  have d: "length (tokens appleBanana) = length (tokens bananaCherry)"
    by (simp add: appleBanana_def bananaCherry_def)
  show ?thesis using a b c d rarer_token_scores_higher [OF a b c d] by blast
qed

subsection \<open>Searching\<close>

text \<open>
  C5. In a state with \<open>0 \<le> avgDocLength\<close> (every state of the module is one) and for
  a positive \<open>k\<close>, every record is scored, the search returns a list of at most \<open>k\<close>
  entries, every entry has a positive score, the scores do not increase along the list,
  and for every score \<open>v\<close> the entries of the result with the score \<open>v\<close> are an initial
  segment of the entries with the score \<open>v\<close> taken in the order of \<open>storedDocs\<close>: ties
  keep the insertion order.
\<close>

theorem search_results_ranked:
  assumes "0 \<le> avgDocLength st" and "0 < k"
  shows "\<exists>scored res.
           scoreAll st (tokenizeString q) (storedDocs st) = Inr scored
         \<and> map fst scored = storedDocs st
         \<and> fst (searchDocuments st (JStr q) k) = Inr res
         \<and> int (length res) \<le> k
         \<and> (\<forall>e \<in> set res. 0 < snd e)
         \<and> sorted_wrt (\<lambda>a b. snd b \<le> snd a) res
         \<and> (\<forall>v. prefix (filter (\<lambda>e. snd e = v) res)
                        (filter (\<lambda>e. snd e = v) (map (\<lambda>s. (pageContent (fst s), snd s)) scored)))"
proof -
  let ?scored = "map (\<lambda>d. (d, scoreValue st (tokenizeString q) d)) (storedDocs st)"
  let ?res = "if storedDocs st = [] \<or> tokenizeString q = [] then [] else rankEntries k ?scored"
  have sc: "scoreAll st (tokenizeString q) (storedDocs st) = Inr ?scored"
    using assms(1) by (rule scoreAll_value)
  have docs: "map fst ?scored = storedDocs st" by (simp add: o_def)
  have res: "fst (searchDocuments st (JStr q) k) = Inr ?res"
    by (simp add: searchDocuments_value [OF assms(1)] rankEntries_def)
  have len: "int (length ?res) \<le> k"
    using assms(2) rankEntries_length [of k ?scored] by simp
  have pos: "\<forall>e \<in> set ?res. 0 < snd e"
    using rankEntries_positive [of _ k ?scored] by simp
  have srt: "sorted_wrt (\<lambda>a b. snd b \<le> snd a) ?res"
    using rankEntries_sorted [of k ?scored] by simp
  have stb: "\<forall>v. prefix (filter (\<lambda>e. snd e = v) ?res)
                        (filter (\<lambda>e. snd e = v) (map (\<lambda>s. (pageContent (fst s), snd s)) ?scored))"
    using rankEntries_stable [of _ k ?scored] by simp
  show ?thesis using sc docs res len pos srt stb by blast
qed

text \<open>
  C5 on the scenario of the specification: after
  \<^verbatim>\<open>initialize(["apple banana", "banana cherry", "apple cherry"])\<close>, the search for
  \<^verbatim>\<open>"apple"\<close> with \<open>k = 2\<close> returns the first and the third text, in this order, with
  the same score.
\<close>

theorem search_results_ranked_witness:
  "0 \<le> avgDocLength fruitState
   \<and> (0::int) < 2
   \<and> fst (searchDocuments fruitState (JStr ''apple'') 2)
       = Inr [(JStr ''apple banana'', ln (8 / 5)), (JStr ''apple cherry'', ln (8 / 5))]
   \<and> (\<exists>scored res.
           scoreAll fruitState (tokenizeString ''apple'') (storedDocs fruitState) = Inr scored
         \<and> map fst scored = storedDocs fruitState
         \<and> fst (searchDocuments fruitState (JStr ''apple'') 2) = Inr res
         \<and> int (length res) \<le> 2
         \<and> (\<forall>e \<in> set res. 0 < snd e)
         \<and> sorted_wrt (\<lambda>a b. snd b \<le> snd a) res
         \<and> (\<forall>v. prefix (filter (\<lambda>e. snd e = v) res)
                        (filter (\<lambda>e. snd e = v) (map (\<lambda>s. (pageContent (fst s), snd s)) scored))))"
proof -
  have a: "0 \<le> avgDocLength fruitState" by (simp add: fruitState_avg)
  have b: "(0::int) < 2" by simp
  show ?thesis
    using a b fruit_search search_results_ranked [OF a b, of "''apple''"] by blast
qed

text \<open>
  C7. A search on an empty store returns the empty list whatever the query is, a search
  whose query has no token returns the empty list whatever the store is, and so does
  every search on a module on which nothing has been called yet. None of them fails, and
  the state is left as it was.
\<close>

theorem search_empty_cases:
  "(storedDocs st = [] \<longrightarrow> searchDocuments st query k = (Inr [], st))
   \<and> (tokenize query = Inr [] \<longrightarrow> searchDocuments st query k = (Inr [], st))
   \<and> searchDocuments initialState query k = (Inr [], initialState)"
  by (simp add: searchDocuments_def initialState_def)

text \<open>
  C7 on the fresh module with the query \<^verbatim>\<open>"apple"\<close>, and on the index of the text
  \<^verbatim>\<open>"apple"\<close> with the query \<^verbatim>\<open>"?!"\<close>.
\<close>

theorem search_empty_cases_witness:
  "storedDocs initialState = []
   \<and> searchDocuments initialState (JStr ''apple'') 5 = (Inr [], initialState)
   \<and> storedDocs appleState \<noteq> []
   \<and> tokenize (JStr ''?!'') = Inr []
   \<and> searchDocuments appleState (JStr ''?!'') 5 = (Inr [], appleState)"
proof -
  have a: "storedDocs initialState = []" by (simp add: initialState_def)
  have b: "tokenize (JStr ''?!'') = Inr []" by (simp add: tokenize_punctuation)
  have c: "storedDocs appleState \<noteq> []" by (simp add: appleState_docs)
  show ?thesis
    using a b c search_empty_cases [of initialState "JStr ''apple''" 5]
      search_empty_cases [of appleState "JStr ''?!''" 5]
    by blast
qed

text \<open>
  C8. No division of a search has a zero divisor, in any state the module can reach
  (lemma \<open>search_divisors_nonzero\<close>), and with \<open>avgDocLength = 0\<close> the result is to be
  empty. It is empty when the statistics are the ones of the store. In the state left by
  the failed \<^verbatim>\<open>addDocuments(["apple", null])\<close> of C2 and C3, a state the module can
  reach, \<open>avgDocLength\<close> is 0 and the search for \<^verbatim>\<open>"apple"\<close> returns the record of
  \<^verbatim>\<open>"apple"\<close> with the score \<open>ln 4\<close>.
\<close>

theorem stale_average_search_not_empty:
  "reachable failedAddState
   \<and> avgDocLength failedAddState = 0
   \<and> fst (searchDocuments failedAddState (JStr ''apple'') 5) = Inr [(JStr ''apple'', ln 4)]"
proof -
  have r: "reachable failedAddState"
    unfolding failedAddState_def by (intro reachable.afterAdd reachable.atStart)
  have a: "avgDocLength failedAddState = 0" by (simp add: failedAddState_value)
  have avg: "0 \<le> avgDocLength failedAddState" by (simp add: a)
  have idf4: "idfValue failedAddState ''apple'' = ln 4"
    by (simp add: idfValue_def failedAddState_value)
  have w: "scoreValue failedAddState [''apple''] appleRecord = ln 4"
    by (simp add: scoreValue_def termWeight_def appleRecord_tf idf4 orOne_def bm25_k1_def
        bm25_b_def a) (simp add: appleRecord_def)
  have docs: "storedDocs failedAddState = [appleRecord]" by (simp add: failedAddState_value)
  have "fst (searchDocuments failedAddState (JStr ''apple'') 5) = Inr [(JStr ''apple'', ln 4)]"
    by (simp add: searchDocuments_value [OF avg] tokenize_apple docs w sortByScoreDesc_def
        sliceTo_def) (simp add: appleRecord_def)
  then show ?thesis using r a by blast
qed

text \<open>
  C10. A search returns the state it was given: \<open>storedDocs\<close>, \<open>dfMap\<close> and
  \<open>avgDocLength\<close> are what they were. So a second search after it gives what it would
  have given before it, and the state after any sequence of searches is the state before
  the first of them.
\<close>

theorem search_read_only:
  "snd (searchDocuments st query k) = st
   \<and> searchDocuments (snd (searchDocuments st query k)) query' k' = searchDocuments st query' k'
   \<and> fold (\<lambda>call s. snd (searchDocuments s (fst call) (snd call))) calls st = st"
proof -
  have "fold (\<lambda>call s. snd (searchDocuments s (fst call) (snd call))) calls st = st"
    by (induction calls) (simp_all add: snd_searchDocuments)
  then show ?thesis by (simp add: snd_searchDocuments)
qed

end
